theory Spec2Isabelle
  imports Main
begin

section \<open>Data model\<close>

text \<open>
  One row of the connections table, with the attributes \<open>connectHandler.js\<close> writes.
  The handler writes no \<open>subscriptions\<close> attribute, and the service reads it as
  \<open>connection.subscriptions || []\<close>, so the attribute is optional: \<open>None\<close> is an absent
  (undefined) attribute, \<open>Some ts\<close> an array of topic names. Timestamps are kept as the
  epoch milliseconds the ISO strings are rendered from.
\<close>

record connection =
  connectionId :: string
  userId :: string
  domainName :: string
  stage :: string
  connectedAt :: nat
  ttl :: nat
  status :: string
  lastActivity :: nat
  subscriptions :: "string list option"

text \<open>The messages the two files serialise with \<open>JSON.stringify\<close>, by their \<open>type\<close> field.\<close>

datatype payload =
    partner_updated string string string nat
  | partner_location_updated string string string "string option" "string option" nat
  | cache_invalidated "string list" nat
  | connection_success string nat
  | user_notification string string

text \<open>One call of \<open>apiGateway.postToConnection\<close>: the client's endpoint and the request.\<close>

record push =
  endpoint :: string
  ConnectionId :: string
  Data :: payload

text \<open>
  What a push resolves to: delivered, or a thrown error with its \<open>statusCode\<close>
  (absent on errors that carry none, such as a timeout).
\<close>

datatype push_outcome = Delivered | PushError "nat option"

datatype error = RegistryError | TokenInvalide

text \<open>
  Everything outside the two files: whether each DynamoDB operation is served, what the
  push transport answers, what \<open>jwt.verify\<close> decodes (the \<open>id\<close> of the payload, or
  \<open>None\<close> when it throws), the clock (\<open>clock env k\<close> is the \<open>k\<close>-th reading
  taken during a call), and the order in which the operations that are awaited at the
  same time are answered: at the \<open>k\<close>-th resumption, with \<open>m\<close> tasks suspended, the
  task at position \<open>schedule env k mod m\<close> among them is the one resumed. Every order
  of answers is the order of some schedule.
\<close>

record environment =
  scan_ok :: bool
  put_ok :: bool
  delete_ok :: "string \<Rightarrow> bool"
  postToConnection :: "push \<Rightarrow> push_outcome"
  jwt_verify :: "string \<Rightarrow> string option"
  clock :: "nat \<Rightarrow> nat"
  schedule :: "nat \<Rightarrow> nat"

text \<open>
  The state the code acts on: the rows of the connections table, and the pushes issued
  so far, in the order they were issued.
\<close>

record world =
  table :: "connection list"
  pushes :: "push list"

text \<open>
  The object \<open>getConnectionStats\<close> returns; its field \<open>total\<close> is \<open>total_conns\<close>
  here. \<open>byUser\<close> and \<open>byTopic\<close> are object literals; the maps are their own
  properties. A property holds a number, or a string: \<open>Text k n\<close> is the text of
  \<open>Object.prototype[k]\<close> followed by \<open>n\<close> characters \<open>1\<close>.
\<close>

datatype bucket_value = Count nat | Text string nat

record stats =
  total_conns :: nat
  byUser :: "string \<rightharpoonup> bucket_value"
  byTopic :: "string \<rightharpoonup> bucket_value"
  timestamp :: nat

text \<open>
  What \<open>handler\<close> reads of its event: \<open>event.connectionId\<close>, the
  \<open>requestContext\<close> with its \<open>domainName\<close> and \<open>stage\<close>, and
  \<open>event.queryStringParameters?.token\<close>, absent when there are no query parameters
  or no \<open>token\<close> among them. The response is the status code with the \<open>message\<close> of
  the body and, in the body of a 500, the error.
\<close>

record event =
  event_connectionId :: string
  requestContext_domainName :: string
  requestContext_stage :: string
  queryStringParameters_token :: "string option"

record response =
  statusCode :: nat
  message :: string
  error_of :: "error option"

section \<open>The DynamoDB document client\<close>

text \<open>
  The table is keyed by \<open>connectionId\<close>: \<open>put\<close> replaces the row of the same key,
  \<open>delete\<close> removes it and succeeds when there is none. A rejected operation changes
  nothing. A scan that is served returns, in \<open>Items\<close>, every row its filter expression
  holds of.
\<close>

definition dynamodb_scan ::
  "environment \<Rightarrow> (connection \<Rightarrow> bool) \<Rightarrow> world \<Rightarrow> error + connection list" where
  "dynamodb_scan env flt w =
     (if scan_ok env then Inr (filter flt (table w)) else Inl RegistryError)"

definition dynamodb_put :: "environment \<Rightarrow> connection \<Rightarrow> world \<Rightarrow> error + world" where
  "dynamodb_put env item w =
     (if put_ok env
      then Inr (w\<lparr>table := filter (\<lambda>r. connectionId r \<noteq> connectionId item) (table w) @ [item]\<rparr>)
      else Inl RegistryError)"

definition dynamodb_delete :: "environment \<Rightarrow> string \<Rightarrow> world \<Rightarrow> error + world" where
  "dynamodb_delete env k w =
     (if delete_ok env k
      then Inr (w\<lparr>table := filter (\<lambda>r. connectionId r \<noteq> k) (table w)\<rparr>)
      else Inl RegistryError)"

section \<open>websocketService.js\<close>

definition getUserConnections ::
  "environment \<Rightarrow> string \<Rightarrow> world \<Rightarrow> error + connection list" where
  "getUserConnections env uid w =
     dynamodb_scan env (\<lambda>c. userId c = uid \<and> status c = ''connected'') w"

definition getAllActiveConnections :: "environment \<Rightarrow> world \<Rightarrow> error + connection list" where
  "getAllActiveConnections env w = dynamodb_scan env (\<lambda>c. status c = ''connected'') w"

text \<open>\<open>connection.subscriptions || []\<close>\<close>

definition subscriptions_or_empty :: "connection \<Rightarrow> string list" where
  "subscriptions_or_empty c = (case subscriptions c of None \<Rightarrow> [] | Some ts \<Rightarrow> ts)"

definition getSubscriberConnections ::
  "environment \<Rightarrow> string list \<Rightarrow> world \<Rightarrow> error + connection list" where
  "getSubscriberConnections env topics w =
     (case getAllActiveConnections env w of
        Inl e \<Rightarrow> Inl e
      | Inr allConnections \<Rightarrow>
          Inr (filter (\<lambda>c. \<exists>topic \<in> set topics. topic \<in> set (subscriptions_or_empty c))
                 allConnections))"

text \<open>
  \<open>cleanupConnection\<close>: the whole body is inside \<open>try\<close>, and the handler of the
  \<open>catch\<close> only logs, so a rejected delete is absorbed.
\<close>

definition cleanupConnection ::
  "environment \<Rightarrow> string \<Rightarrow> world \<Rightarrow> (error + unit) \<times> world" where
  "cleanupConnection env cid w =
     (case dynamodb_delete env cid w of
        Inl e \<Rightarrow> (Inr (), w)
      | Inr w' \<Rightarrow> (Inr (), w'))"

text \<open>
  \<open>sendToConnections\<close>. The callback of \<open>connections.map\<close> is an \<open>async\<close>
  function: called by \<open>map\<close>, it runs up to its first \<open>await\<close>, that is, it calls
  \<open>postToConnection\<close>, and is suspended there; so \<open>map\<close> issues the pushes of all the
  connections, in the order of the list, before any of them is answered. A task is
  resumed when the operation it awaits is answered. Resumed from its push, it is done
  when the push was delivered or failed with a status code other than 410; on
  \<open>statusCode === 410\<close> it calls \<open>cleanupConnection\<close>, which awaits the delete: the
  task is suspended again, and done when \<open>cleanupConnection\<close> returns. The \<open>try\<close> of
  the callback covers the push, its \<open>catch\<close> the call of \<open>cleanupConnection\<close>. Between
  two suspensions a task runs without interruption. Every operation awaited is answered
  in the end (the transport and the table have their own timeouts), and the effect of a
  delete on the table is taken when the delete is answered.
\<close>

definition push_of :: "payload \<Rightarrow> connection \<Rightarrow> push" where
  "push_of notification c =
     \<lparr>endpoint = domainName c @ ''/'' @ stage c,
      ConnectionId = connectionId c,
      Data = notification\<rparr>"

datatype settled = Fulfilled | Rejected error

datatype phase = AwaitingPush | AwaitingDelete

type_synonym task = "nat \<times> connection \<times> phase"

text \<open>
  What happens during a call, in the order it happens: task \<open>i\<close> issues its push, the
  push of task \<open>i\<close> is answered, the promise of task \<open>i\<close> settles, the call returns.
\<close>

datatype send_event =
    Issued nat push
  | Answered nat push_outcome
  | Settled nat settled
  | Returned

fun resume ::
  "environment \<Rightarrow> payload \<Rightarrow> task \<Rightarrow> world \<Rightarrow> (send_event list \<times> (task + settled)) \<times> world" where
  "resume env notification (i, c, AwaitingPush) w =
     (case postToConnection env (push_of notification c) of
        Delivered \<Rightarrow> (([Answered i Delivered, Settled i Fulfilled], Inr Fulfilled), w)
      | PushError sc \<Rightarrow>
          if sc = Some 410 then (([Answered i (PushError sc)], Inl (i, c, AwaitingDelete)), w)
          else (([Answered i (PushError sc), Settled i Fulfilled], Inr Fulfilled), w))"
| "resume env notification (i, c, AwaitingDelete) w =
     (case cleanupConnection env (connectionId c) w of
        (Inl e, w') \<Rightarrow> (([Settled i (Rejected e)], Inr (Rejected e)), w')
      | (Inr u, w') \<Rightarrow> (([Settled i Fulfilled], Inr Fulfilled), w'))"

definition remove_nth :: "nat \<Rightarrow> 'a list \<Rightarrow> 'a list" where
  "remove_nth j xs = take j xs @ drop (Suc j) xs"

text \<open>The number of times a suspended task can still be resumed.\<close>

fun weight :: "task \<Rightarrow> nat" where
  "weight (i, c, AwaitingPush) = 2"
| "weight (i, c, AwaitingDelete) = 1"

text \<open>
  \<open>await Promise.allSettled(tasks)\<close>: the call is suspended until no task is; the
  array of the join has one slot for each task, filled when the task settles. The
  tasks are resumed one at a time, in the order of the schedule.
\<close>

function settle_all ::
  "environment \<Rightarrow> payload \<Rightarrow> nat \<Rightarrow> task list \<Rightarrow> settled option list \<Rightarrow> send_event list \<Rightarrow>
   world \<Rightarrow> settled option list \<times> send_event list \<times> world" where
  "settle_all env notification k [] results tr w = (results, tr, w)"
| "settle_all env notification k (t # ts) results tr w =
     (let j = schedule env k mod length (t # ts) in
      case resume env notification ((t # ts) ! j) w of
        ((evs, Inl t'), w') \<Rightarrow>
          settle_all env notification (Suc k) ((t # ts)[j := t']) results (tr @ evs) w'
      | ((evs, Inr r), w') \<Rightarrow>
          settle_all env notification (Suc k) (remove_nth j (t # ts))
            (results[fst ((t # ts) ! j) := Some r]) (tr @ evs) w')"
  by pat_completeness auto
termination settle_all
proof (relation "measure (\<lambda>(env, n, k, pending, results, tr, w). sum_list (map weight pending))", goal_cases)
  case 1
  show ?case by simp
next
  case (2 env n k t ts results tr w j x1 w' evs x2 t')
  define xs where "xs = t # ts"
  have j: "j < length xs"
    using 2 by (simp add: xs_def)
  have r: "resume env n (xs ! j) w = ((evs, Inl t'), w')"
    using 2 by (simp add: xs_def)
  obtain i c ph where tk: "xs ! j = (i, c, ph)"
    by (cases "xs ! j") auto
  have lt: "weight t' < weight (xs ! j)"
    using r unfolding tk
    by (cases ph) (auto split: push_outcome.splits if_splits prod.splits sum.splits)
  have le: "weight (xs ! j) \<le> sum_list (map weight xs)"
  proof (rule member_le_sum_list)
    show "weight (xs ! j) \<in> set (map weight xs)"
      using j by simp
  qed simp
  have "sum_list (map weight (xs[j := t'])) = sum_list ((map weight xs)[j := weight t'])"
    by (simp only: map_update)
  also have "\<dots> = sum_list (map weight xs) + weight t' - weight (xs ! j)"
    using j by (simp add: sum_list_update)
  also have "\<dots> < sum_list (map weight xs)"
    using lt le by linarith
  finally have "sum_list (map weight (xs[j := t'])) < sum_list (map weight xs)" .
  then show ?case
    unfolding xs_def by simp
next
  case (3 env n k t ts results tr w j x1 w' evs x2 r)
  define xs where "xs = t # ts"
  have j: "j < length xs"
    using 3 by (simp add: xs_def)
  have pos: "0 < weight (xs ! j)"
    by (cases "xs ! j" rule: weight.cases) simp_all
  have "sum_list (map weight xs) =
      sum_list (map weight (take j xs @ xs ! j # drop (Suc j) xs))"
    using j by (simp only: id_take_nth_drop [symmetric])
  then have "sum_list (map weight (remove_nth j xs)) < sum_list (map weight xs)"
    using pos by (simp add: remove_nth_def)
  then show ?case
    unfolding xs_def by simp
qed

declare settle_all.simps(2) [simp del]

text \<open>
  The whole call, with what it leaves to be observed: the value it resolves to, the
  array of the join, and the events in the order they happened. The function has no
  \<open>return\<close> with a value: on both paths the call resolves to \<open>undefined\<close>, here
  \<open>None\<close>, and the array of the join is dropped.
\<close>

record send_run =
  returned :: "settled list option"
  joined :: "settled option list"
  events :: "send_event list"

definition initial_tasks :: "connection list \<Rightarrow> task list" where
  "initial_tasks connections =
     map (\<lambda>(i, c). (i, c, AwaitingPush)) (zip [0..<length connections] connections)"

definition issue_events :: "payload \<Rightarrow> connection list \<Rightarrow> send_event list" where
  "issue_events notification connections =
     map (\<lambda>(i, c). Issued i (push_of notification c))
       (zip [0..<length connections] connections)"

definition sendToConnections_run ::
  "environment \<Rightarrow> connection list \<Rightarrow> payload \<Rightarrow> world \<Rightarrow> send_run \<times> world" where
  "sendToConnections_run env connections notification w =
     (if length connections = 0 then (\<lparr>returned = None, joined = [], events = [Returned]\<rparr>, w)
      else
        let w1 = w\<lparr>pushes := pushes w @ map (push_of notification) connections\<rparr>
        in case settle_all env notification 0 (initial_tasks connections)
                  (replicate (length connections) None)
                  (issue_events notification connections) w1 of
             (results, tr, w') \<Rightarrow>
               (\<lparr>returned = None, joined = results, events = tr @ [Returned]\<rparr>, w'))"

definition sendToConnections ::
  "environment \<Rightarrow> connection list \<Rightarrow> payload \<Rightarrow> world \<Rightarrow>
   (error + settled list option) \<times> world" where
  "sendToConnections env connections notification w =
     (case sendToConnections_run env connections notification w of
        (run, w') \<Rightarrow> (Inr (returned run), w'))"

text \<open>The three broadcasts: each body is one \<open>try\<close> whose \<open>catch\<close> only logs.\<close>

definition broadcastToSubscribers ::
  "environment \<Rightarrow> string list \<Rightarrow> payload \<Rightarrow> world \<Rightarrow> (error + unit) \<times> world" where
  "broadcastToSubscribers env topics notification w =
     (case getSubscriberConnections env topics w of
        Inl e \<Rightarrow> (Inr (), w)
      | Inr connections \<Rightarrow>
          (case sendToConnections env connections notification w of
             (r, w') \<Rightarrow> (Inr (), w')))"

definition broadcastToAll ::
  "environment \<Rightarrow> payload \<Rightarrow> world \<Rightarrow> (error + unit) \<times> world" where
  "broadcastToAll env notification w =
     (case getAllActiveConnections env w of
        Inl e \<Rightarrow> (Inr (), w)
      | Inr connections \<Rightarrow>
          (case sendToConnections env connections notification w of
             (r, w') \<Rightarrow> (Inr (), w')))"

definition notifyUser ::
  "environment \<Rightarrow> string \<Rightarrow> payload \<Rightarrow> world \<Rightarrow> (error + unit) \<times> world" where
  "notifyUser env uid notification w =
     (case getUserConnections env uid w of
        Inl e \<Rightarrow> (Inr (), w)
      | Inr connections \<Rightarrow>
          if length connections = 0 then (Inr (), w)
          else (case sendToConnections env connections notification w of
                  (r, w') \<Rightarrow> (Inr (), w')))"

definition notifyPartnerChange ::
  "environment \<Rightarrow> string \<Rightarrow> string \<Rightarrow> string \<Rightarrow> world \<Rightarrow> (error + unit) \<times> world" where
  "notifyPartnerChange env partnerId action partnerData w =
     broadcastToSubscribers env [''partners'', ''partner_updates'']
       (partner_updated action partnerId partnerData (clock env 0)) w"

definition notifyCacheInvalidation ::
  "environment \<Rightarrow> string list \<Rightarrow> world \<Rightarrow> (error + unit) \<times> world" where
  "notifyCacheInvalidation env cacheKeys w =
     broadcastToAll env (cache_invalidated cacheKeys (clock env 0)) w"

text \<open>
  \<open>String.prototype.toLowerCase\<close>. A string here is a list of code units below 256,
  the characters of Latin-1. Among them the capital letters are \<open>A\<close> to \<open>Z\<close> (65 to
  90) and \<open>U+00C0\<close> to \<open>U+00DE\<close> (192 to 222) without the multiplication sign (215);
  the small letter of each is 32 above it. Every other character is its own lower case.
\<close>

definition toLowerCase_char :: "char \<Rightarrow> char" where
  "toLowerCase_char ch =
     (let n = (of_char ch :: nat)
      in if (65 \<le> n \<and> n \<le> 90) \<or> (192 \<le> n \<and> n \<le> 222 \<and> n \<noteq> 215)
         then char_of (n + 32) else ch)"

definition toLowerCase :: "string \<Rightarrow> string" where
  "toLowerCase s = map toLowerCase_char s"

text \<open>
  The city and the category are a string or absent (\<open>undefined\<close>, an argument left
  out). A template literal \<open>${x}\<close> of an absent value prints \<open>undefined\<close>;
  \<open>city?.toLowerCase()\<close> of an absent city is absent.
\<close>

definition template :: "string option \<Rightarrow> string" where
  "template x = (case x of None \<Rightarrow> ''undefined'' | Some s \<Rightarrow> s)"

definition location_topics :: "string option \<Rightarrow> string option \<Rightarrow> string list" where
  "location_topics city category =
     [''partners'',
      ''partners_'' @ template (map_option toLowerCase city),
      ''partners_'' @ template category,
      ''partners_'' @ template (map_option toLowerCase city) @ ''_'' @ template category]"

definition notifyPartnerChangeByLocation ::
  "environment \<Rightarrow> string \<Rightarrow> string \<Rightarrow> string \<Rightarrow> string option \<Rightarrow> string option \<Rightarrow> world \<Rightarrow>
   (error + unit) \<times> world" where
  "notifyPartnerChangeByLocation env partnerId action partnerData city category w =
     broadcastToSubscribers env (location_topics city category)
       (partner_location_updated action partnerId partnerData city category (clock env 0)) w"

text \<open>
  \<open>getConnectionStats\<close>. The counters are object literals, so a key that is not an
  own property is looked up in \<open>Object.prototype\<close>, whose properties have the names
  below.
\<close>

definition object_prototype_names :: "string list" where
  "object_prototype_names =
     [''constructor'', ''__defineGetter__'', ''__defineSetter__'', ''hasOwnProperty'',
      ''__lookupGetter__'', ''__lookupSetter__'', ''isPrototypeOf'', ''propertyIsEnumerable'',
      ''toString'', ''valueOf'', ''__proto__'', ''toLocaleString'']"

text \<open>
  \<open>obj[k] = (obj[k] || 0) + 1\<close>. An own number \<open>v\<close> becomes \<open>v + 1\<close>; an own
  string is truthy, and \<open>+ 1\<close> appends the character \<open>1\<close> to it. Without an own
  property: for a key that \<open>Object.prototype\<close> has not, the read is \<open>undefined\<close>
  and the property is created with the number 1; for a key it has, the read is the
  inherited function or object, which is truthy, and \<open>+ 1\<close> makes the string of its
  text followed by \<open>1\<close>. That string becomes an own property, except for
  \<open>__proto__\<close>: there the assignment goes to the inherited setter, which ignores a
  string, so nothing is stored.
\<close>

definition increment ::
  "(string \<rightharpoonup> bucket_value) \<Rightarrow> string \<Rightarrow> (string \<rightharpoonup> bucket_value)" where
  "increment obj k =
     (case obj k of
        Some (Count v) \<Rightarrow> obj(k \<mapsto> Count (v + 1))
      | Some (Text t n) \<Rightarrow> obj(k \<mapsto> Text t (n + 1))
      | None \<Rightarrow>
          if k \<notin> set object_prototype_names then obj(k \<mapsto> Count 1)
          else if k = ''__proto__'' then obj
          else obj(k \<mapsto> Text k 1))"

definition count_topic :: "stats \<Rightarrow> string \<Rightarrow> stats" where
  "count_topic st topic = st\<lparr>byTopic := increment (byTopic st) topic\<rparr>"

definition count_connection :: "stats \<Rightarrow> connection \<Rightarrow> stats" where
  "count_connection st c =
     foldl count_topic (st\<lparr>byUser := increment (byUser st) (userId c)\<rparr>)
       (subscriptions_or_empty c)"

definition getConnectionStats :: "environment \<Rightarrow> world \<Rightarrow> error + stats option" where
  "getConnectionStats env w =
     (case getAllActiveConnections env w of
        Inl e \<Rightarrow> Inr None
      | Inr connections \<Rightarrow>
          Inr (Some (foldl count_connection
                 \<lparr>total_conns = length connections, byUser = Map.empty, byTopic = Map.empty,
                  timestamp = clock env 0\<rparr>
                 connections)))"

section \<open>connectHandler.js\<close>

text \<open>\<open>s.replace(pat, rep)\<close> with a string pattern: the first occurrence only.\<close>

fun replace_first :: "string \<Rightarrow> string \<Rightarrow> string \<Rightarrow> string" where
  "replace_first pat rep [] = (if pat = [] then rep else [])"
| "replace_first pat rep (ch # s) =
     (if take (length pat) (ch # s) = pat then rep @ drop (length pat) (ch # s)
      else ch # replace_first pat rep s)"

definition verifyToken :: "environment \<Rightarrow> string \<Rightarrow> error + string" where
  "verifyToken env token =
     (case jwt_verify env (replace_first ''Bearer '' [] token) of
        None \<Rightarrow> Inl TokenInvalide
      | Some decoded_id \<Rightarrow> Inr decoded_id)"

definition connectionData :: "environment \<Rightarrow> event \<Rightarrow> string \<Rightarrow> connection" where
  "connectionData env ev uid =
     \<lparr>connectionId = event_connectionId ev,
      userId = uid,
      domainName = requestContext_domainName ev,
      stage = requestContext_stage ev,
      connectedAt = clock env 0,
      ttl = clock env 1 div 1000 + 24 * 60 * 60,
      status = ''connected'',
      lastActivity = clock env 2,
      subscriptions = None\<rparr>"

definition welcome_push :: "environment \<Rightarrow> event \<Rightarrow> string \<Rightarrow> push" where
  "welcome_push env ev uid =
     \<lparr>endpoint = requestContext_domainName ev @ ''/'' @ requestContext_stage ev,
      ConnectionId = event_connectionId ev,
      Data = connection_success uid (clock env 3)\<rparr>"

text \<open>
  \<open>handler\<close>: \<open>!token\<close> holds of an absent token and of the empty string. A rejected
  \<open>put\<close> reaches the outer \<open>catch\<close> (500); the welcome push has its own \<open>try\<close>,
  whose \<open>catch\<close> only logs.
\<close>

definition handler :: "environment \<Rightarrow> event \<Rightarrow> world \<Rightarrow> response \<times> world" where
  "handler env ev w =
     (case queryStringParameters_token ev of
        None \<Rightarrow> (\<lparr>statusCode = 401, message = ''Token manquant'', error_of = None\<rparr>, w)
      | Some token \<Rightarrow>
          if token = [] then
            (\<lparr>statusCode = 401, message = ''Token manquant'', error_of = None\<rparr>, w)
          else
            (case verifyToken env token of
               Inl e \<Rightarrow> (\<lparr>statusCode = 401, message = ''Token invalide'', error_of = None\<rparr>, w)
             | Inr uid \<Rightarrow>
                 (case dynamodb_put env (connectionData env ev uid) w of
                    Inl e \<Rightarrow>
                      (\<lparr>statusCode = 500, message = ''Erreur interne'', error_of = Some e\<rparr>, w)
                  | Inr w1 \<Rightarrow>
                      (let p = welcome_push env ev uid;
                           w2 = w1\<lparr>pushes := pushes w1 @ [p]\<rparr>
                       in case postToConnection env p of
                            Delivered \<Rightarrow>
                              (\<lparr>statusCode = 200, message = ''Connected'', error_of = None\<rparr>, w2)
                          | PushError sc \<Rightarrow>
                              (\<lparr>statusCode = 200, message = ''Connected'', error_of = None\<rparr>, w2)))))"

section \<open>The properties, in the words of the specification\<close>

text \<open>A connection is live when the scans select it.\<close>

definition live :: "connection list \<Rightarrow> connection list" where
  "live rows = filter (\<lambda>c. status c = ''connected'') rows"

text \<open>The topic router: the live connections whose subscriptions meet the topics.\<close>

definition resolve :: "connection list \<Rightarrow> string list \<Rightarrow> connection list" where
  "resolve rows topics =
     filter (\<lambda>c. status c = ''connected'' \<and> set (subscriptions_or_empty c) \<inter> set topics \<noteq> {})
       rows"

text \<open>
  The targets whose push is answered with the status code 410, and among them those
  whose delete the table serves.
\<close>

definition gone :: "environment \<Rightarrow> payload \<Rightarrow> connection \<Rightarrow> bool" where
  "gone env notification c \<longleftrightarrow>
     postToConnection env (push_of notification c) = PushError (Some 410)"

definition reaped_ids :: "environment \<Rightarrow> payload \<Rightarrow> connection list \<Rightarrow> string set" where
  "reaped_ids env notification cs =
     connectionId ` {c \<in> set cs. gone env notification c \<and> delete_ok env (connectionId c)}"

text \<open>
  The events of a list by their kind: the answers to the pushes, with the task each
  belongs to, and the tasks that settled; an event of a task after its push was
  issued is one of the two.
\<close>

definition answered :: "send_event list \<Rightarrow> (nat \<times> push_outcome) list" where
  "answered tr =
     concat (map (\<lambda>e. case e of Answered i out \<Rightarrow> [(i, out)] | _ \<Rightarrow> []) tr)"

definition settled_tasks :: "send_event list \<Rightarrow> nat list" where
  "settled_tasks tr = concat (map (\<lambda>e. case e of Settled i r \<Rightarrow> [i] | _ \<Rightarrow> []) tr)"

definition is_resolution :: "send_event \<Rightarrow> bool" where
  "is_resolution e = (case e of Answered i out \<Rightarrow> True | Settled i r \<Rightarrow> True | _ \<Rightarrow> False)"

text \<open>The answers the tasks still waiting for their push will get.\<close>

definition pending_answers ::
  "environment \<Rightarrow> payload \<Rightarrow> task list \<Rightarrow> (nat \<times> push_outcome) set" where
  "pending_answers env notification ts =
     {(i, postToConnection env (push_of notification c)) |i c. (i, c, AwaitingPush) \<in> set ts}"

text \<open>
  The rows a list of suspended tasks will have deleted when all are done: those of the
  tasks whose delete is under way, or whose push is answered with 410, when the table
  serves the delete.
\<close>

fun reaps :: "environment \<Rightarrow> payload \<Rightarrow> task \<Rightarrow> string set" where
  "reaps env notification (i, c, ph) =
     (if delete_ok env (connectionId c) \<and>
         (ph = AwaitingDelete \<or>
          postToConnection env (push_of notification c) = PushError (Some 410))
      then {connectionId c} else {})"

text \<open>A call that returns \<open>n\<close> per-connection outcomes.\<close>

definition returns_outcomes :: "error + settled list option \<Rightarrow> nat \<Rightarrow> bool" where
  "returns_outcomes r n \<longleftrightarrow>
     (case r of Inl e \<Rightarrow> False | Inr None \<Rightarrow> False | Inr (Some outcomes) \<Rightarrow> length outcomes = n)"

text \<open>
  The snapshot as a count: a bucket exists for the keys counted at least once; a
  connection counts once for its owner and once for each topic it is subscribed to.
  \<open>topic_occurrences\<close> counts a topic once for each time it is written in a row's array.
\<close>

definition bucket :: "nat \<Rightarrow> bucket_value option" where
  "bucket k = (if k = 0 then None else Some (Count k))"

definition owner_count :: "connection list \<Rightarrow> string \<Rightarrow> nat" where
  "owner_count cs u = length (filter (\<lambda>c. userId c = u) cs)"

definition topic_count :: "connection list \<Rightarrow> string \<Rightarrow> nat" where
  "topic_count cs t = length (filter (\<lambda>c. t \<in> set (subscriptions_or_empty c)) cs)"

definition topic_occurrences :: "connection list \<Rightarrow> string \<Rightarrow> nat" where
  "topic_occurrences cs t = sum_list (map (\<lambda>c. count_list (subscriptions_or_empty c) t) cs)"

definition add_count :: "bucket_value option \<Rightarrow> nat \<Rightarrow> bucket_value option" where
  "add_count v k =
     (if k = 0 then v
      else case v of
             None \<Rightarrow> Some (Count k)
           | Some (Count m) \<Rightarrow> Some (Count (m + k))
           | Some (Text t m) \<Rightarrow> Some (Text t (m + k)))"

definition snapshot :: "connection list \<Rightarrow> nat \<Rightarrow> stats" where
  "snapshot cs ts =
     \<lparr>total_conns = length cs,
      byUser = (\<lambda>u. bucket (owner_count cs u)),
      byTopic = (\<lambda>t. bucket (topic_count cs t)),
      timestamp = ts\<rparr>"

text \<open>The token of an admission event is valid: present, not empty, and verified.\<close>

definition valid_token :: "environment \<Rightarrow> event \<Rightarrow> string option" where
  "valid_token env ev =
     (case queryStringParameters_token ev of
        None \<Rightarrow> None
      | Some token \<Rightarrow>
          if token = [] then None else jwt_verify env (replace_first ''Bearer '' [] token))"

section \<open>Concrete inputs\<close>

definition example_connection :: "string \<Rightarrow> string \<Rightarrow> string list option \<Rightarrow> connection" where
  "example_connection cid uid subs =
     \<lparr>connectionId = cid, userId = uid, domainName = ''ws.perkup.app'', stage = ''prod'',
      connectedAt = 1700000000000, ttl = 1700086400, status = ''connected'',
      lastActivity = 1700000000000, subscriptions = subs\<rparr>"

definition example_env :: "(push \<Rightarrow> push_outcome) \<Rightarrow> environment" where
  "example_env post =
     \<lparr>scan_ok = True, put_ok = True, delete_ok = (\<lambda>k. True), postToConnection = post,
      jwt_verify = (\<lambda>t. if t = ''good'' then Some ''u1'' else None),
      clock = (\<lambda>k. 1700000000000 + k),
      schedule = (\<lambda>k. 0)\<rparr>"

definition last_first :: "nat \<Rightarrow> nat" where
  "last_first k = 2"

definition all_delivered :: "push \<Rightarrow> push_outcome" where
  "all_delivered p = Delivered"

definition fails_for :: "string \<Rightarrow> nat option \<Rightarrow> push \<Rightarrow> push_outcome" where
  "fails_for cid sc p = (if ConnectionId p = cid then PushError sc else Delivered)"

definition delete_rejected :: "string \<Rightarrow> bool" where
  "delete_rejected k = False"

definition example_world :: "connection list \<Rightarrow> world" where
  "example_world rows = \<lparr>table = rows, pushes = []\<rparr>"

definition example_event :: "string option \<Rightarrow> event" where
  "example_event tok =
     \<lparr>event_connectionId = ''c9'', requestContext_domainName = ''ws.perkup.app'',
      requestContext_stage = ''prod'', queryStringParameters_token = tok\<rparr>"

definition three_connections :: "connection list" where
  "three_connections =
     [example_connection ''c1'' ''u1'' (Some [''partners'']),
      example_connection ''c2'' ''u1'' (Some [''partners'', ''c1'']),
      example_connection ''c3'' ''u2'' (Some [''c1''])]"

definition paris_connections :: "connection list" where
  "paris_connections =
     [example_connection ''c1'' ''u1'' (Some [''partners_paris'']),
      example_connection ''c2'' ''u2'' (Some [''partners_lyon'']),
      example_connection ''c3'' ''u3'' (Some [''cache'', ''partners'']),
      example_connection ''c4'' ''u4'' None,
      example_connection ''c5'' ''u2'' (Some [''partners_paris_food'', ''partners_lyon''])]"

definition inherited_names_connections :: "connection list" where
  "inherited_names_connections =
     [example_connection ''c1'' ''constructor'' (Some [''__proto__'', ''partners''])]"

section \<open>Idempotence of the cleanup\<close>

lemma filter_absent_key:
  "k \<notin> connectionId ` set rows \<Longrightarrow> filter (\<lambda>r. connectionId r \<noteq> k) rows = rows"
  by (induction rows) auto

text \<open>
  C7. The reap operation is idempotent. \<open>cleanupConnection\<close> never raises; on a table
  that has no row of the given id it changes nothing, whether the delete is served or
  not; a second call after a served delete changes nothing; and two calls in succession
  leave the state one call leaves.
\<close>

theorem cleanupConnection_idempotent:
  "fst (cleanupConnection env cid w) = Inr () \<and>
   (cid \<notin> connectionId ` set (table w) \<longrightarrow> cleanupConnection env cid w = (Inr (), w)) \<and>
   (delete_ok env cid \<longrightarrow>
      cleanupConnection env' cid (snd (cleanupConnection env cid w)) =
      cleanupConnection env cid w) \<and>
   cleanupConnection env cid (snd (cleanupConnection env cid w)) = cleanupConnection env cid w"
  by (simp add: cleanupConnection_def dynamodb_delete_def filter_absent_key)

theorem cleanupConnection_idempotent_witness:
  "''c2'' \<notin> connectionId ` set (table (example_world [example_connection ''c1'' ''u1'' None])) \<and>
   delete_ok (example_env all_delivered) ''c2'' \<and>
   cleanupConnection (example_env all_delivered) ''c2''
     (example_world [example_connection ''c1'' ''u1'' None]) =
   (Inr (), example_world [example_connection ''c1'' ''u1'' None]) \<and>
   cleanupConnection (example_env all_delivered) ''c2''
     (snd (cleanupConnection (example_env all_delivered) ''c2''
        (example_world [example_connection ''c1'' ''u1'' None]))) =
   cleanupConnection (example_env all_delivered) ''c2''
     (example_world [example_connection ''c1'' ''u1'' None])"
  using cleanupConnection_idempotent
    [of "example_env all_delivered" "''c2''"
        "example_world [example_connection ''c1'' ''u1'' None]" "example_env all_delivered"]
  by (simp add: example_world_def example_connection_def example_env_def)

section \<open>The fan-out\<close>

lemma remove_nth_set:
  "j < length xs \<Longrightarrow> set xs = insert (xs ! j) (set (remove_nth j xs))"
proof -
  assume "j < length xs"
  then have "xs = take j xs @ xs ! j # drop (Suc j) xs"
    by (rule id_take_nth_drop)
  then have "set xs = set (take j xs @ xs ! j # drop (Suc j) xs)"
    by simp
  then show ?thesis
    by (simp add: remove_nth_def)
qed

lemma update_set:
  "j < length xs \<Longrightarrow> set (xs[j := y]) = insert y (set (remove_nth j xs))"
  by (simp add: upd_conv_take_nth_drop remove_nth_def)

lemma remove_nth_distinct:
  assumes "j < length xs" and "distinct (map f xs)"
  shows "distinct (map f (remove_nth j xs)) \<and> f (xs ! j) \<notin> f ` set (remove_nth j xs)"
proof -
  have "xs = take j xs @ xs ! j # drop (Suc j) xs"
    using assms(1) by (rule id_take_nth_drop)
  then have "distinct (map f (take j xs @ xs ! j # drop (Suc j) xs))"
    using assms(2) by simp
  then show ?thesis
    by (auto simp: remove_nth_def)
qed

lemma update_distinct:
  assumes "j < length xs" and "distinct (map f xs)" and "f y = f (xs ! j)"
  shows "distinct (map f (xs[j := y]))"
proof -
  have "xs = take j xs @ xs ! j # drop (Suc j) xs"
    using assms(1) by (rule id_take_nth_drop)
  then have "distinct (map f (take j xs @ xs ! j # drop (Suc j) xs))"
    using assms(2) by simp
  then show ?thesis
    using assms(1,3) by (auto simp: upd_conv_take_nth_drop)
qed

lemma settle_all_step:
  assumes "xs \<noteq> []"
    and "resume env n (xs ! (schedule env k mod length xs)) w = ((evs, nx), w')"
  shows "settle_all env n k xs res tr w =
     settle_all env n (Suc k)
       (case nx of Inl t' \<Rightarrow> xs[schedule env k mod length xs := t']
        | Inr r \<Rightarrow> remove_nth (schedule env k mod length xs) xs)
       (case nx of Inl t' \<Rightarrow> res
        | Inr r \<Rightarrow> res[fst (xs ! (schedule env k mod length xs)) := Some r])
       (tr @ evs) w'"
proof (cases xs)
  case Nil
  with assms(1) show ?thesis by simp
next
  case (Cons t ts)
  show ?thesis
    using assms(2) unfolding Cons settle_all.simps(2) Let_def
    by (simp split: sum.splits)
qed

lemma settle_all_induct_out:
  assumes base: "\<And>env n k res tr w. P env n k [] res tr w (res, tr, w)"
    and step: "\<And>env n k xs res tr w j evs nx w' out.
      xs \<noteq> [] \<Longrightarrow> j = schedule env k mod length xs \<Longrightarrow> j < length xs \<Longrightarrow>
      resume env n (xs ! j) w = ((evs, nx), w') \<Longrightarrow>
      P env n (Suc k) (case nx of Inl t' \<Rightarrow> xs[j := t'] | Inr r \<Rightarrow> remove_nth j xs)
        (case nx of Inl t' \<Rightarrow> res | Inr r \<Rightarrow> res[fst (xs ! j) := Some r]) (tr @ evs) w' out \<Longrightarrow>
      P env n k xs res tr w out"
  shows "P env n k xs res tr w (settle_all env n k xs res tr w)"
proof (induction env n k xs res tr w rule: settle_all.induct)
  case (1 env n k res tr w)
  show ?case by (simp add: base)
next
  case (2 env n k t ts res tr w)
  define xs where "xs = t # ts"
  define j where "j = schedule env k mod length xs"
  have ne: "xs \<noteq> []" and j: "j < length xs"
    by (simp_all add: xs_def j_def)
  obtain evs nx w' where r: "resume env n (xs ! j) w = ((evs, nx), w')"
    by (metis surj_pair)
  have eq: "settle_all env n k xs res tr w =
     settle_all env n (Suc k)
       (case nx of Inl t' \<Rightarrow> xs[j := t'] | Inr r \<Rightarrow> remove_nth j xs)
       (case nx of Inl t' \<Rightarrow> res | Inr r \<Rightarrow> res[fst (xs ! j) := Some r])
       (tr @ evs) w'"
    unfolding j_def by (rule settle_all_step [OF ne r [unfolded j_def]])
  have "P env n (Suc k) (case nx of Inl t' \<Rightarrow> xs[j := t'] | Inr r \<Rightarrow> remove_nth j xs)
        (case nx of Inl t' \<Rightarrow> res | Inr r \<Rightarrow> res[fst (xs ! j) := Some r]) (tr @ evs) w'
        (settle_all env n k xs res tr w)"
  proof (cases nx)
    case (Inl t')
    show ?thesis
      unfolding eq
      using "2.IH"(1) [OF j_def [unfolded xs_def] r [unfolded xs_def, symmetric] refl Inl]
      by (simp add: Inl xs_def)
  next
    case (Inr s)
    show ?thesis
      unfolding eq
      using "2.IH"(2) [OF j_def [unfolded xs_def] r [unfolded xs_def, symmetric] refl Inr]
      by (simp add: Inr xs_def)
  qed
  then have "P env n k xs res tr w (settle_all env n k xs res tr w)"
    by (rule step [OF ne j_def j r])
  then show ?case
    by (simp only: xs_def)
qed

lemma resume_push:
  assumes "resume env n (i, c, AwaitingPush) w = ((evs, nx), w')"
  shows "w' = w \<and>
     (if gone env n c
      then evs = [Answered i (PushError (Some 410))] \<and> nx = Inl (i, c, AwaitingDelete)
      else evs = [Answered i (postToConnection env (push_of n c)), Settled i Fulfilled] \<and>
           nx = Inr Fulfilled)"
  using assms by (auto simp: gone_def split: push_outcome.splits if_splits)

lemma resume_delete:
  assumes "resume env n (i, c, AwaitingDelete) w = ((evs, nx), w')"
  shows "evs = [Settled i Fulfilled] \<and> nx = Inr Fulfilled \<and> pushes w' = pushes w \<and>
     table w' =
       (if delete_ok env (connectionId c)
        then filter (\<lambda>r. connectionId r \<noteq> connectionId c) (table w) else table w)"
  using assms by (auto simp: cleanupConnection_def dynamodb_delete_def split: if_splits)

lemma settle_all_pushes:
  "pushes (snd (snd (settle_all env n k xs res tr w))) = pushes w"
proof (rule settle_all_induct_out
    [where P = "\<lambda>env n k xs res tr w out. pushes (snd (snd out)) = pushes w"])
  fix env n k res tr and w :: world
  show "pushes (snd (snd (res, tr, w))) = pushes w"
    by simp
next
  fix env n k xs res tr w j evs nx w' and out :: "settled option list \<times> send_event list \<times> world"
  assume r: "resume env n (xs ! j) w = ((evs, nx), w')"
    and ih: "pushes (snd (snd out)) = pushes w'"
  obtain i c ph where t: "xs ! j = (i, c, ph)"
    by (cases "xs ! j") auto
  have "pushes w' = pushes w"
  proof (cases ph)
    case AwaitingPush
    show ?thesis
      using resume_push [OF r [unfolded t AwaitingPush]] by simp
  next
    case AwaitingDelete
    show ?thesis
      using resume_delete [OF r [unfolded t AwaitingDelete]] by simp
  qed
  with ih show "pushes (snd (snd out)) = pushes w"
    by simp
qed

lemma settle_all_table:
  "table (snd (snd (settle_all env n k xs res tr w))) =
     filter (\<lambda>r. connectionId r \<notin> (\<Union>t \<in> set xs. reaps env n t)) (table w)"
proof (rule settle_all_induct_out
    [where P = "\<lambda>env n k xs res tr w out. table (snd (snd out)) =
       filter (\<lambda>r. connectionId r \<notin> (\<Union>t \<in> set xs. reaps env n t)) (table w)"])
  fix env n k res tr and w :: world
  show "table (snd (snd (res, tr, w))) =
      filter (\<lambda>r. connectionId r \<notin> (\<Union>t \<in> set []. reaps env n t)) (table w)"
    by simp
next
  fix env n k xs res tr w j evs nx w'
    and out :: "settled option list \<times> send_event list \<times> world"
  assume j: "j < length xs"
    and r: "resume env n (xs ! j) w = ((evs, nx), w')"
    and ih: "table (snd (snd out)) =
      filter (\<lambda>r. connectionId r \<notin>
          (\<Union>t \<in> set (case nx of Inl t' \<Rightarrow> xs[j := t'] | Inr r \<Rightarrow> remove_nth j xs).
             reaps env n t)) (table w')"
  obtain i c ph where t: "xs ! j = (i, c, ph)"
    by (cases "xs ! j") auto
  let ?rest = "\<Union>t \<in> set (remove_nth j xs). reaps env n t"
  have all: "(\<Union>t \<in> set xs. reaps env n t) = reaps env n (i, c, ph) \<union> ?rest"
    using remove_nth_set [OF j] t by simp
  show "table (snd (snd out)) =
      filter (\<lambda>r. connectionId r \<notin> (\<Union>t \<in> set xs. reaps env n t)) (table w)"
  proof (cases ph)
    case AwaitingPush
    note f = resume_push [OF r [unfolded t AwaitingPush]]
    show ?thesis
    proof (cases "gone env n c")
      case True
      with f have nx: "nx = Inl (i, c, AwaitingDelete)" and w: "w' = w"
        by simp_all
      have "(\<Union>t \<in> set (xs[j := (i, c, AwaitingDelete)]). reaps env n t) =
          reaps env n (i, c, AwaitingDelete) \<union> ?rest"
        using update_set [OF j] by simp
      moreover have "reaps env n (i, c, AwaitingDelete) = reaps env n (i, c, AwaitingPush)"
        using True by (simp add: gone_def)
      ultimately show ?thesis
        using ih all by (simp add: nx w AwaitingPush)
    next
      case False
      with f have nx: "nx = Inr Fulfilled" and w: "w' = w"
        by simp_all
      have "reaps env n (i, c, AwaitingPush) = {}"
        using False by (simp add: gone_def)
      then show ?thesis
        using ih all by (simp add: nx w AwaitingPush)
    qed
  next
    case AwaitingDelete
    note f = resume_delete [OF r [unfolded t AwaitingDelete]]
    then have nx: "nx = Inr Fulfilled"
      by simp
    have tw: "table w' = filter (\<lambda>r. connectionId r \<notin> reaps env n (i, c, AwaitingDelete)) (table w)"
      using f by simp
    show ?thesis
      using ih unfolding all AwaitingDelete tw
      by (simp add: nx conj_commute)
  qed
qed

lemma settle_all_results:
  "length (fst (settle_all env n k xs res tr w)) = length res \<and>
   (\<forall>m < length res. fst (settle_all env n k xs res tr w) ! m =
      (if m \<in> fst ` set xs then Some Fulfilled else res ! m))"
proof (rule settle_all_induct_out
    [where P = "\<lambda>env n k xs res tr w out. length (fst out) = length res \<and>
       (\<forall>m < length res. fst out ! m =
          (if m \<in> fst ` set xs then Some Fulfilled else res ! m))"])
  fix env n k tr w and res :: "settled option list"
  show "length (fst (res, tr, w)) = length res \<and>
       (\<forall>m < length res. fst (res, tr, w) ! m =
          (if m \<in> fst ` set [] then Some Fulfilled else res ! m))"
    by simp
next
  fix env n k res tr w j evs w' and xs :: "task list" and nx :: "task + settled"
    and out :: "settled option list \<times> send_event list \<times> world"
  let ?xs' = "case nx of Inl t' \<Rightarrow> xs[j := t'] | Inr r \<Rightarrow> remove_nth j xs"
  let ?res' = "case nx of Inl t' \<Rightarrow> res | Inr r \<Rightarrow> res[fst (xs ! j) := Some r]"
  assume j: "j < length xs"
    and r: "resume env n (xs ! j) w = ((evs, nx), w')"
    and ih: "length (fst out) = length ?res' \<and>
       (\<forall>m < length ?res'. fst out ! m =
          (if m \<in> fst ` set ?xs' then Some Fulfilled else ?res' ! m))"
  obtain i c ph where t: "xs ! j = (i, c, ph)"
    by (cases "xs ! j") auto
  have xs: "fst ` set xs = insert i (fst ` set (remove_nth j xs))"
    using remove_nth_set [OF j] t by simp
  have cases: "nx = Inl (i, c, AwaitingDelete) \<or> nx = Inr Fulfilled"
  proof (cases ph)
    case AwaitingPush
    show ?thesis
      using resume_push [OF r [unfolded t AwaitingPush]] by (simp split: if_splits)
  next
    case AwaitingDelete
    show ?thesis
      using resume_delete [OF r [unfolded t AwaitingDelete]] by simp
  qed
  then show "length (fst out) = length res \<and>
       (\<forall>m < length res. fst out ! m =
          (if m \<in> fst ` set xs then Some Fulfilled else res ! m))"
  proof
    assume nx: "nx = Inl (i, c, AwaitingDelete)"
    have "fst ` set (xs[j := (i, c, AwaitingDelete)]) = fst ` set xs"
      using update_set [OF j, of "(i, c, AwaitingDelete)"] xs by simp
    then show ?thesis
      using ih by (simp add: nx)
  next
    assume nx: "nx = Inr Fulfilled"
    show ?thesis
      using ih by (auto simp: nx t xs nth_list_update)
  qed
qed

lemma answered_append: "answered (a @ b) = answered a @ answered b"
  by (simp add: answered_def)

lemma settled_tasks_append: "settled_tasks (a @ b) = settled_tasks a @ settled_tasks b"
  by (simp add: settled_tasks_def)

lemma pending_answers_split:
  assumes "j < length xs" and "xs ! j = (i, c, ph)"
  shows "pending_answers env n xs =
     (if ph = AwaitingPush then {(i, postToConnection env (push_of n c))} else {}) \<union>
     pending_answers env n (remove_nth j xs)"
  using remove_nth_set [OF assms(1)] assms(2) by (auto simp: pending_answers_def)

lemma pending_answers_update:
  assumes "j < length xs"
  shows "pending_answers env n (xs[j := (i, c, AwaitingDelete)]) = pending_answers env n (remove_nth j xs)"
  using update_set [OF assms, of "(i, c, AwaitingDelete)"] by (auto simp: pending_answers_def)

lemma pending_answers_fst: "fst ` pending_answers env n xs \<subseteq> fst ` set xs"
  by (force simp: pending_answers_def)

lemma settle_all_trace:
  "\<exists>evs. fst (snd (settle_all env n k xs res tr w)) = tr @ evs \<and>
     list_all is_resolution evs \<and>
     (distinct (map fst xs) \<longrightarrow>
        distinct (map fst (answered evs)) \<and>
        set (answered evs) = pending_answers env n xs \<and>
        distinct (settled_tasks evs) \<and>
        set (settled_tasks evs) = fst ` set xs)"
proof (rule settle_all_induct_out
    [where P = "\<lambda>env n k xs res tr w out.
       \<exists>evs. fst (snd out) = tr @ evs \<and> list_all is_resolution evs \<and>
         (distinct (map fst xs) \<longrightarrow>
            distinct (map fst (answered evs)) \<and>
            set (answered evs) = pending_answers env n xs \<and>
            distinct (settled_tasks evs) \<and>
            set (settled_tasks evs) = fst ` set xs)"])
  fix env n k w and res :: "settled option list" and tr :: "send_event list"
  show "\<exists>evs. fst (snd (res, tr, w)) = tr @ evs \<and> list_all is_resolution evs \<and>
         (distinct (map fst ([] :: task list)) \<longrightarrow>
            distinct (map fst (answered evs)) \<and>
            set (answered evs) = pending_answers env n [] \<and>
            distinct (settled_tasks evs) \<and>
            set (settled_tasks evs) = fst ` set ([] :: task list))"
    by (rule exI [of _ "[]"]) (simp add: answered_def settled_tasks_def pending_answers_def)
next
  fix env n k res tr w j evs w' and xs :: "task list" and nx :: "task + settled"
    and out :: "settled option list \<times> send_event list \<times> world"
  let ?xs' = "case nx of Inl t' \<Rightarrow> xs[j := t'] | Inr r \<Rightarrow> remove_nth j xs"
  assume j: "j < length xs"
    and r: "resume env n (xs ! j) w = ((evs, nx), w')"
    and ih: "\<exists>evs'. fst (snd out) = (tr @ evs) @ evs' \<and> list_all is_resolution evs' \<and>
         (distinct (map fst ?xs') \<longrightarrow>
            distinct (map fst (answered evs')) \<and>
            set (answered evs') = pending_answers env n ?xs' \<and>
            distinct (settled_tasks evs') \<and>
            set (settled_tasks evs') = fst ` set ?xs')"
  obtain i c ph where t: "xs ! j = (i, c, ph)"
    by (cases "xs ! j") auto
  obtain evs' where tr: "fst (snd out) = tr @ evs @ evs'"
    and res: "list_all is_resolution evs'"
    and inv: "distinct (map fst ?xs') \<Longrightarrow>
        distinct (map fst (answered evs')) \<and>
        set (answered evs') = pending_answers env n ?xs' \<and>
        distinct (settled_tasks evs') \<and>
        set (settled_tasks evs') = fst ` set ?xs'"
    using ih by auto
  let ?rest = "remove_nth j xs"
  have xs: "fst ` set xs = insert i (fst ` set ?rest)"
    using remove_nth_set [OF j] t by simp
  have split: "pending_answers env n xs =
     (if ph = AwaitingPush then {(i, postToConnection env (push_of n c))} else {}) \<union>
     pending_answers env n ?rest"
    by (rule pending_answers_split [OF j t])
  have fresh: "distinct (map fst xs) \<Longrightarrow>
      distinct (map fst ?rest) \<and> i \<notin> fst ` set ?rest"
    using remove_nth_distinct [OF j, of fst] t by simp
  have sub: "fst ` pending_answers env n ?rest \<subseteq> fst ` set ?rest"
    by (rule pending_answers_fst)
  consider
    (push_gone) "ph = AwaitingPush" "gone env n c"
      "evs = [Answered i (PushError (Some 410))]" "nx = Inl (i, c, AwaitingDelete)"
  | (push_done) "ph = AwaitingPush" "\<not> gone env n c"
      "evs = [Answered i (postToConnection env (push_of n c)), Settled i Fulfilled]"
      "nx = Inr Fulfilled"
  | (delete_done) "ph = AwaitingDelete" "evs = [Settled i Fulfilled]" "nx = Inr Fulfilled"
  proof (cases ph)
    case AwaitingPush
    with resume_push [OF r [unfolded t AwaitingPush]] push_gone push_done show ?thesis
      by (cases "gone env n c") simp_all
  next
    case AwaitingDelete
    with resume_delete [OF r [unfolded t AwaitingDelete]] delete_done show ?thesis
      by simp
  qed
  then have "list_all is_resolution (evs @ evs') \<and>
         (distinct (map fst xs) \<longrightarrow>
            distinct (map fst (answered (evs @ evs'))) \<and>
            set (answered (evs @ evs')) = pending_answers env n xs \<and>
            distinct (settled_tasks (evs @ evs')) \<and>
            set (settled_tasks (evs @ evs')) = fst ` set xs)"
  proof cases
    case push_gone
    have a: "answered evs = [(i, postToConnection env (push_of n c))]" "settled_tasks evs = []"
      "list_all is_resolution evs"
      using push_gone by (simp_all add: answered_def settled_tasks_def is_resolution_def gone_def)
    have x': "fst ` set (xs[j := (i, c, AwaitingDelete)]) = fst ` set xs"
      using update_set [OF j, of "(i, c, AwaitingDelete)"] xs by simp
    show ?thesis
    proof (intro conjI impI)
      show "list_all is_resolution (evs @ evs')"
        using a res by simp
    next
      assume d: "distinct (map fst xs)"
      have "distinct (map fst (xs[j := (i, c, AwaitingDelete)]))"
        using update_distinct [OF j d, of "(i, c, AwaitingDelete)"] t by simp
      then have i: "distinct (map fst (answered evs'))"
        "set (answered evs') = pending_answers env n ?rest"
        "distinct (settled_tasks evs')"
        "set (settled_tasks evs') = fst ` set xs"
        using inv by (simp_all add: push_gone pending_answers_update [OF j] x')
      have n: "i \<notin> fst ` set (answered evs')"
        using fresh [OF d] sub i(2) by auto
      show "distinct (map fst (answered (evs @ evs')))"
        using a i n by (simp add: answered_append)
      show "set (answered (evs @ evs')) = pending_answers env n xs"
        using a i by (simp add: answered_append split push_gone(1))
      show "distinct (settled_tasks (evs @ evs'))"
        using a i by (simp add: settled_tasks_append)
      show "set (settled_tasks (evs @ evs')) = fst ` set xs"
        using a i by (simp add: settled_tasks_append)
    qed
  next
    case push_done
    have a: "answered evs = [(i, postToConnection env (push_of n c))]" "settled_tasks evs = [i]"
      "list_all is_resolution evs"
      using push_done by (simp_all add: answered_def settled_tasks_def is_resolution_def)
    show ?thesis
    proof (intro conjI impI)
      show "list_all is_resolution (evs @ evs')"
        using a res by simp
    next
      assume d: "distinct (map fst xs)"
      have i: "distinct (map fst (answered evs'))"
        "set (answered evs') = pending_answers env n ?rest"
        "distinct (settled_tasks evs')"
        "set (settled_tasks evs') = fst ` set ?rest"
        using inv fresh [OF d] by (simp_all add: push_done)
      have n: "i \<notin> fst ` set (answered evs')" "i \<notin> set (settled_tasks evs')"
        using fresh [OF d] sub i(2,4) by auto
      show "distinct (map fst (answered (evs @ evs')))"
        using a i n by (simp add: answered_append)
      show "set (answered (evs @ evs')) = pending_answers env n xs"
        using a i by (simp add: answered_append split push_done(1))
      show "distinct (settled_tasks (evs @ evs'))"
        using a i n by (simp add: settled_tasks_append)
      show "set (settled_tasks (evs @ evs')) = fst ` set xs"
        using a i by (simp add: settled_tasks_append xs)
    qed
  next
    case delete_done
    have a: "answered evs = []" "settled_tasks evs = [i]" "list_all is_resolution evs"
      using delete_done by (simp_all add: answered_def settled_tasks_def is_resolution_def)
    show ?thesis
    proof (intro conjI impI)
      show "list_all is_resolution (evs @ evs')"
        using a res by simp
    next
      assume d: "distinct (map fst xs)"
      have i: "distinct (map fst (answered evs'))"
        "set (answered evs') = pending_answers env n ?rest"
        "distinct (settled_tasks evs')"
        "set (settled_tasks evs') = fst ` set ?rest"
        using inv fresh [OF d] by (simp_all add: delete_done)
      have n: "i \<notin> set (settled_tasks evs')"
        using fresh [OF d] i(4) by auto
      show "distinct (map fst (answered (evs @ evs')))"
        using a i by (simp add: answered_append)
      show "set (answered (evs @ evs')) = pending_answers env n xs"
        using a i by (simp add: answered_append split delete_done(1))
      show "distinct (settled_tasks (evs @ evs'))"
        using a i n by (simp add: settled_tasks_append)
      show "set (settled_tasks (evs @ evs')) = fst ` set xs"
        using a i by (simp add: settled_tasks_append xs)
    qed
  qed
  with tr show "\<exists>evs'. fst (snd out) = tr @ evs' \<and> list_all is_resolution evs' \<and>
         (distinct (map fst xs) \<longrightarrow>
            distinct (map fst (answered evs')) \<and>
            set (answered evs') = pending_answers env n xs \<and>
            distinct (settled_tasks evs') \<and>
            set (settled_tasks evs') = fst ` set xs)"
    by blast
qed

lemma initial_tasks_nth:
  "initial_tasks cs = map (\<lambda>i. (i, cs ! i, AwaitingPush)) [0..<length cs]"
  by (rule nth_equalityI) (simp_all add: initial_tasks_def)

lemma initial_tasks_set:
  "set (initial_tasks cs) = {(i, cs ! i, AwaitingPush) |i. i < length cs}"
  by (auto simp: initial_tasks_nth)

lemma initial_tasks_fst: "map fst (initial_tasks cs) = [0..<length cs]"
  by (simp add: initial_tasks_nth comp_def)

lemma initial_tasks_indices: "fst ` set (initial_tasks cs) = {..<length cs}"
  using initial_tasks_fst [of cs] by (metis atLeast_upt set_map)

lemma initial_tasks_reaps:
  "(\<Union>t \<in> set (initial_tasks cs). reaps env n t) = reaped_ids env n cs"
  by (auto simp: initial_tasks_set reaped_ids_def gone_def in_set_conv_nth split: if_splits)

lemma initial_tasks_answers:
  "pending_answers env n (initial_tasks cs) =
     {(i, postToConnection env (push_of n (cs ! i))) |i. i < length cs}"
  by (auto simp: pending_answers_def initial_tasks_set)

lemma sendToConnections_returns: "fst (sendToConnections env cs n w) = Inr None"
  by (simp add: sendToConnections_def sendToConnections_run_def Let_def split: prod.splits)

lemma sendToConnections_pushes:
  "pushes (snd (sendToConnections env cs n w)) = pushes w @ map (push_of n) cs"
proof (cases "length cs = 0")
  case True
  then show ?thesis
    by (simp add: sendToConnections_def sendToConnections_run_def)
next
  case False
  let ?w1 = "w\<lparr>pushes := pushes w @ map (push_of n) cs\<rparr>"
  let ?out = "settle_all env n 0 (initial_tasks cs) (replicate (length cs) None)
      (issue_events n cs) ?w1"
  have "snd (sendToConnections env cs n w) = snd (snd ?out)"
    using False
    by (simp add: sendToConnections_def sendToConnections_run_def Let_def split: prod.splits)
  then show ?thesis
    by (simp add: settle_all_pushes)
qed

lemma sendToConnections_table:
  "table (snd (sendToConnections env cs n w)) =
     filter (\<lambda>r. connectionId r \<notin> reaped_ids env n cs) (table w)"
proof (cases "length cs = 0")
  case True
  then show ?thesis
    by (simp add: sendToConnections_def sendToConnections_run_def reaped_ids_def)
next
  case False
  let ?w1 = "w\<lparr>pushes := pushes w @ map (push_of n) cs\<rparr>"
  let ?out = "settle_all env n 0 (initial_tasks cs) (replicate (length cs) None)
      (issue_events n cs) ?w1"
  have "snd (sendToConnections env cs n w) = snd (snd ?out)"
    using False
    by (simp add: sendToConnections_def sendToConnections_run_def Let_def split: prod.splits)
  then show ?thesis
    by (simp add: settle_all_table initial_tasks_reaps)
qed

lemma sendToConnections_joined:
  "joined (fst (sendToConnections_run env cs n w)) = replicate (length cs) (Some Fulfilled)"
proof (cases "length cs = 0")
  case True
  then show ?thesis
    by (simp add: sendToConnections_run_def)
next
  case False
  let ?w1 = "w\<lparr>pushes := pushes w @ map (push_of n) cs\<rparr>"
  let ?out = "settle_all env n 0 (initial_tasks cs) (replicate (length cs) None)
      (issue_events n cs) ?w1"
  have j: "joined (fst (sendToConnections_run env cs n w)) = fst ?out"
    using False by (simp add: sendToConnections_run_def Let_def split: prod.splits)
  have "length (fst ?out) = length cs \<and>
      (\<forall>m < length cs. fst ?out ! m = Some Fulfilled)"
    using settle_all_results [of env n 0 "initial_tasks cs" "replicate (length cs) None"
        "issue_events n cs" ?w1]
    by (simp add: initial_tasks_indices)
  then have "fst ?out = replicate (length cs) (Some Fulfilled)"
    by (intro nth_equalityI) simp_all
  with j show ?thesis
    by simp
qed

lemma sendToConnections_events:
  "\<exists>rest. events (fst (sendToConnections_run env cs n w)) =
        issue_events n cs @ rest @ [Returned] \<and>
      list_all is_resolution rest \<and>
      distinct (map fst (answered rest)) \<and>
      set (answered rest) =
        {(i, postToConnection env (push_of n (cs ! i))) |i. i < length cs} \<and>
      distinct (settled_tasks rest) \<and>
      set (settled_tasks rest) = {..<length cs}"
proof (cases "length cs = 0")
  case True
  then show ?thesis
    by (simp add: sendToConnections_run_def issue_events_def answered_def settled_tasks_def)
next
  case False
  let ?w1 = "w\<lparr>pushes := pushes w @ map (push_of n) cs\<rparr>"
  let ?out = "settle_all env n 0 (initial_tasks cs) (replicate (length cs) None)
      (issue_events n cs) ?w1"
  have e: "events (fst (sendToConnections_run env cs n w)) = fst (snd ?out) @ [Returned]"
    using False by (simp add: sendToConnections_run_def Let_def split: prod.splits)
  have d: "distinct (map fst (initial_tasks cs))"
    by (simp add: initial_tasks_fst)
  obtain rest where "fst (snd ?out) = issue_events n cs @ rest"
    and "list_all is_resolution rest"
    and "distinct (map fst (answered rest))"
    and "set (answered rest) = pending_answers env n (initial_tasks cs)"
    and "distinct (settled_tasks rest)"
    and "set (settled_tasks rest) = fst ` set (initial_tasks cs)"
    using settle_all_trace [of env n 0 "initial_tasks cs" "replicate (length cs) None"
        "issue_events n cs" ?w1] d
    by blast
  then show ?thesis
    using e by (simp add: initial_tasks_answers initial_tasks_indices)
qed

lemma settle_all_eval:
  "settle_all env n k (t # ts) res tr w =
     (if isl (snd (fst (resume env n ((t # ts) ! (schedule env k mod length (t # ts))) w)))
      then settle_all env n (Suc k)
             ((t # ts)[schedule env k mod length (t # ts) :=
                projl (snd (fst (resume env n ((t # ts) ! (schedule env k mod length (t # ts))) w)))])
             res
             (tr @ fst (fst (resume env n ((t # ts) ! (schedule env k mod length (t # ts))) w)))
             (snd (resume env n ((t # ts) ! (schedule env k mod length (t # ts))) w))
      else settle_all env n (Suc k)
             (remove_nth (schedule env k mod length (t # ts)) (t # ts))
             (res[fst ((t # ts) ! (schedule env k mod length (t # ts))) :=
                Some (projr (snd (fst (resume env n ((t # ts) ! (schedule env k mod length (t # ts))) w))))])
             (tr @ fst (fst (resume env n ((t # ts) ! (schedule env k mod length (t # ts))) w)))
             (snd (resume env n ((t # ts) ! (schedule env k mod length (t # ts))) w)))"
proof -
  obtain evs nx w' where r: "resume env n ((t # ts) ! (schedule env k mod length (t # ts))) w = ((evs, nx), w')"
    by (metis surj_pair)
  show ?thesis
    unfolding settle_all.simps(2) Let_def r
    by (cases nx) (simp_all del: settle_all.simps)
qed

lemma issue_events_nth:
  "issue_events n cs = map (\<lambda>i. Issued i (push_of n (cs ! i))) [0..<length cs]"
  by (rule nth_equalityI) (simp_all add: issue_events_def)

text \<open>
  C1, as the code has it. One call of \<open>sendToConnections\<close> issues one push for each
  connection of the list, in the order of the list and all of them before any is
  answered, whatever the answers will be; then, in whatever order the answers come,
  the push of each connection is answered once and the task of each connection
  settles once; the call returns after all of that, and only then. The join over the
  tasks holds one result for each connection, each of them fulfilled, since a task
  absorbs the failure of its own push. The call itself resolves to \<open>undefined\<close>: the
  results of the join are not returned.
\<close>

theorem sendToConnections_attempts:
  "fst (sendToConnections env cs n w) = Inr None \<and>
   pushes (snd (sendToConnections env cs n w)) = pushes w @ map (push_of n) cs \<and>
   joined (fst (sendToConnections_run env cs n w)) = replicate (length cs) (Some Fulfilled) \<and>
   (\<exists>rest. events (fst (sendToConnections_run env cs n w)) =
        map (\<lambda>i. Issued i (push_of n (cs ! i))) [0..<length cs] @ rest @ [Returned] \<and>
      list_all is_resolution rest \<and>
      distinct (map fst (answered rest)) \<and>
      set (answered rest) =
        {(i, postToConnection env (push_of n (cs ! i))) |i. i < length cs} \<and>
      distinct (settled_tasks rest) \<and>
      set (settled_tasks rest) = {..<length cs})"
  using sendToConnections_returns [of env cs n w] sendToConnections_pushes [of env cs n w]
    sendToConnections_joined [of env cs n w] sendToConnections_events [of env cs n w]
  unfolding issue_events_nth by blast

theorem sendToConnections_attempts_witness:
  "fst (sendToConnections
     ((example_env (fails_for ''c2'' (Some 410)))\<lparr>schedule := last_first\<rparr>)
     three_connections (user_notification ''info'' ''hello'')
     (example_world three_connections)) = Inr None \<and>
   map ConnectionId
     (pushes (snd (sendToConnections
        ((example_env (fails_for ''c2'' (Some 410)))\<lparr>schedule := last_first\<rparr>)
        three_connections (user_notification ''info'' ''hello'')
        (example_world three_connections)))) = [''c1'', ''c2'', ''c3''] \<and>
   joined (fst (sendToConnections_run
     ((example_env (fails_for ''c2'' (Some 410)))\<lparr>schedule := last_first\<rparr>)
     three_connections (user_notification ''info'' ''hello'')
     (example_world three_connections))) = [Some Fulfilled, Some Fulfilled, Some Fulfilled] \<and>
   events (fst (sendToConnections_run
     ((example_env (fails_for ''c2'' (Some 410)))\<lparr>schedule := last_first\<rparr>)
     three_connections (user_notification ''info'' ''hello'')
     (example_world three_connections))) =
     [Issued 0 (push_of (user_notification ''info'' ''hello'') (three_connections ! 0)),
      Issued 1 (push_of (user_notification ''info'' ''hello'') (three_connections ! 1)),
      Issued 2 (push_of (user_notification ''info'' ''hello'') (three_connections ! 2)),
      Answered 2 Delivered, Settled 2 Fulfilled,
      Answered 0 Delivered, Settled 0 Fulfilled,
      Answered 1 (PushError (Some 410)), Settled 1 Fulfilled,
      Returned]"
proof -
  have e: "events (fst (sendToConnections_run
     ((example_env (fails_for ''c2'' (Some 410)))\<lparr>schedule := last_first\<rparr>)
     three_connections (user_notification ''info'' ''hello'')
     (example_world three_connections))) =
     [Issued 0 (push_of (user_notification ''info'' ''hello'') (three_connections ! 0)),
      Issued 1 (push_of (user_notification ''info'' ''hello'') (three_connections ! 1)),
      Issued 2 (push_of (user_notification ''info'' ''hello'') (three_connections ! 2)),
      Answered 2 Delivered, Settled 2 Fulfilled,
      Answered 0 Delivered, Settled 0 Fulfilled,
      Answered 1 (PushError (Some 410)), Settled 1 Fulfilled,
      Returned]"
    by (simp add: sendToConnections_run_def initial_tasks_def issue_events_def remove_nth_def
        last_first_def cleanupConnection_def dynamodb_delete_def upt_conv_Cons settle_all_eval
        Let_def numeral_2_eq_2 example_env_def example_world_def example_connection_def
        three_connections_def fails_for_def push_of_def)
  have l: "length three_connections = 3"
    by (simp add: three_connections_def)
  have "fst (sendToConnections
     ((example_env (fails_for ''c2'' (Some 410)))\<lparr>schedule := last_first\<rparr>)
     three_connections (user_notification ''info'' ''hello'')
     (example_world three_connections)) = Inr None \<and>
   pushes (snd (sendToConnections
        ((example_env (fails_for ''c2'' (Some 410)))\<lparr>schedule := last_first\<rparr>)
        three_connections (user_notification ''info'' ''hello'')
        (example_world three_connections))) =
     pushes (example_world three_connections) @
     map (push_of (user_notification ''info'' ''hello'')) three_connections \<and>
   joined (fst (sendToConnections_run
     ((example_env (fails_for ''c2'' (Some 410)))\<lparr>schedule := last_first\<rparr>)
     three_connections (user_notification ''info'' ''hello'')
     (example_world three_connections))) = replicate (length three_connections) (Some Fulfilled)"
    using sendToConnections_attempts
      [of "(example_env (fails_for ''c2'' (Some 410)))\<lparr>schedule := last_first\<rparr>"
          three_connections "user_notification ''info'' ''hello''"
          "example_world three_connections"]
    by blast
  then show ?thesis
    unfolding l using e
    by (simp add: numeral_3_eq_3 example_world_def example_connection_def
        three_connections_def push_of_def)
qed

text \<open>
  C1, as the claim states it, fails: with three targets, the second of them gone, the
  call does not return three outcomes; it returns no value.
\<close>

theorem sendToConnections_outcomes_counterexample:
  "\<not> returns_outcomes
     (fst (sendToConnections (example_env (fails_for ''c2'' (Some 410))) three_connections
        (user_notification ''info'' ''hello'') (example_world three_connections))) 3"
  by (simp add: returns_outcomes_def sendToConnections_returns)

section \<open>Reaping during a broadcast\<close>

lemma reaped_ids_Nil: "reaped_ids env n [] = {}"
  by (simp add: reaped_ids_def)

lemma reaped_ids_Cons:
  "reaped_ids env n (c # cs) =
     (if gone env n c \<and> delete_ok env (connectionId c) then {connectionId c} else {}) \<union>
     reaped_ids env n cs"
  by (auto simp: reaped_ids_def)

text \<open>
  C4, as the code has it. After one call of \<open>sendToConnections\<close> the table is the
  table before the call without the rows whose \<open>connectionId\<close> is that of a target
  whose push was answered with the status code 410 and whose delete the table
  served: a delete that is rejected is logged by \<open>cleanupConnection\<close> and leaves the
  row. Every other row is unchanged, and each target is pushed to once: nothing is
  retried.
\<close>

theorem sendToConnections_reaps:
  "table (snd (sendToConnections env cs n w)) =
     filter (\<lambda>r. connectionId r \<notin> reaped_ids env n cs) (table w) \<and>
   pushes (snd (sendToConnections env cs n w)) = pushes w @ map (push_of n) cs"
  by (simp add: sendToConnections_table sendToConnections_pushes)

theorem sendToConnections_reaps_witness:
  "table (snd (sendToConnections (example_env (fails_for ''c2'' (Some 410))) three_connections
     (user_notification ''info'' ''hello'') (example_world three_connections))) =
     [example_connection ''c1'' ''u1'' (Some [''partners'']),
      example_connection ''c3'' ''u2'' (Some [''c1''])] \<and>
   table (snd (sendToConnections (example_env (fails_for ''c2'' (Some 500))) three_connections
     (user_notification ''info'' ''hello'') (example_world three_connections))) =
     three_connections \<and>
   length (pushes (snd (sendToConnections (example_env (fails_for ''c2'' (Some 500)))
     three_connections (user_notification ''info'' ''hello'')
     (example_world three_connections)))) = 3"
  using
    sendToConnections_reaps
      [of "example_env (fails_for ''c2'' (Some 410))" three_connections
          "user_notification ''info'' ''hello''" "example_world three_connections"]
    sendToConnections_reaps
      [of "example_env (fails_for ''c2'' (Some 500))" three_connections
          "user_notification ''info'' ''hello''" "example_world three_connections"]
  by (simp add: reaped_ids_Cons reaped_ids_Nil gone_def example_env_def example_world_def
      example_connection_def three_connections_def fails_for_def push_of_def)

text \<open>
  C4, as the claim states it, fails: the push to the target \<open>c2\<close> is answered with the
  status code 410, the delete of its row is rejected, and the row is in the table
  after the call.
\<close>

theorem sendToConnections_gone_counterexample:
  "gone ((example_env (fails_for ''c2'' (Some 410)))\<lparr>delete_ok := delete_rejected\<rparr>)
     (user_notification ''info'' ''hello'')
     (example_connection ''c2'' ''u1'' (Some [''partners'', ''c1''])) \<and>
   example_connection ''c2'' ''u1'' (Some [''partners'', ''c1'']) \<in>
     set (table (snd (sendToConnections
       ((example_env (fails_for ''c2'' (Some 410)))\<lparr>delete_ok := delete_rejected\<rparr>)
       three_connections (user_notification ''info'' ''hello'')
       (example_world three_connections))))"
  by (simp add: sendToConnections_table reaped_ids_Cons reaped_ids_Nil gone_def
      delete_rejected_def example_env_def example_world_def example_connection_def
      three_connections_def fails_for_def push_of_def)

section \<open>The topic router\<close>

lemma some_includes_inter:
  "(\<exists>topic \<in> set topics. topic \<in> set xs) \<longleftrightarrow> set xs \<inter> set topics \<noteq> {}"
  by auto

lemma getSubscriberConnections_resolve:
  "scan_ok env \<Longrightarrow> getSubscriberConnections env topics w = Inr (resolve (table w) topics)"
  by (simp add: getSubscriberConnections_def getAllActiveConnections_def dynamodb_scan_def
      resolve_def some_includes_inter conj_commute)

text \<open>
  C3. On every table the scan returns, \<open>getSubscriberConnections\<close> returns exactly the
  live rows whose subscriptions meet the given topics, and none for the empty list of
  topics. (A rejected scan is the error of the call.)
\<close>

theorem getSubscriberConnections_exact:
  "getSubscriberConnections env topics w =
     (if scan_ok env then Inr (resolve (table w) topics) else Inl RegistryError) \<and>
   (scan_ok env \<longrightarrow> getSubscriberConnections env [] w = Inr [])"
  by (simp add: getSubscriberConnections_def getAllActiveConnections_def dynamodb_scan_def
      resolve_def some_includes_inter conj_commute)

theorem getSubscriberConnections_exact_witness:
  "scan_ok (example_env all_delivered) \<and>
   getSubscriberConnections (example_env all_delivered) [''partners'', ''partners_paris'']
     (example_world paris_connections) =
     Inr [example_connection ''c1'' ''u1'' (Some [''partners_paris'']),
          example_connection ''c3'' ''u3'' (Some [''cache'', ''partners''])] \<and>
   getSubscriberConnections (example_env all_delivered) []
     (example_world paris_connections) = Inr []"
  using getSubscriberConnections_exact
    [of "example_env all_delivered" "[''partners'', ''partners_paris'']"
        "example_world paris_connections"]
    getSubscriberConnections_exact
    [of "example_env all_delivered" "[]" "example_world paris_connections"]
  by (simp add: resolve_def subscriptions_or_empty_def example_env_def example_world_def
      example_connection_def paris_connections_def)

section \<open>Partner updates by location\<close>

lemma broadcastToSubscribers_pushes:
  "scan_ok env \<Longrightarrow>
   pushes (snd (broadcastToSubscribers env topics n w)) =
     pushes w @ map (push_of n) (resolve (table w) topics)"
  using sendToConnections_pushes [of env "resolve (table w) topics" n w]
  by (simp add: broadcastToSubscribers_def getSubscriberConnections_resolve case_prod_beta)

lemma location_topics_Paris_food:
  "location_topics (Some ''Paris'') (Some ''food'') =
     [''partners'', ''partners_paris'', ''partners_food'', ''partners_paris_food'']"
  by code_simp

text \<open>
  C5. On every table the scan returns, a partner update for the city \<open>Paris\<close> and the
  category \<open>food\<close> is pushed once to each live row subscribed to one at least of
  \<open>partners\<close>, \<open>partners_paris\<close>, \<open>partners_food\<close>, \<open>partners_paris_food\<close>, and to
  no other row.
\<close>

theorem notifyPartnerChangeByLocation_targets:
  "scan_ok env \<Longrightarrow>
   pushes (snd (notifyPartnerChangeByLocation env partnerId action partnerData
      (Some ''Paris'') (Some ''food'') w)) =
     pushes w @
     map (push_of (partner_location_updated action partnerId partnerData
            (Some ''Paris'') (Some ''food'') (clock env 0)))
       (resolve (table w)
          [''partners'', ''partners_paris'', ''partners_food'', ''partners_paris_food''])"
  by (simp add: notifyPartnerChangeByLocation_def broadcastToSubscribers_pushes
      location_topics_Paris_food)

theorem notifyPartnerChangeByLocation_targets_witness:
  "scan_ok (example_env all_delivered) \<and>
   map ConnectionId
     (pushes (snd (notifyPartnerChangeByLocation (example_env all_delivered)
        ''p7'' ''updated'' ''{}'' (Some ''Paris'') (Some ''food'')
        (example_world paris_connections)))) = [''c1'', ''c3'', ''c5'']"
proof -
  have ok: "scan_ok (example_env all_delivered)"
    by (simp add: example_env_def)
  show ?thesis
    using ok notifyPartnerChangeByLocation_targets
      [OF ok, of "''p7''" "''updated''" "''{}''" "example_world paris_connections"]
    by (simp add: resolve_def subscriptions_or_empty_def push_of_def example_world_def
        example_connection_def paris_connections_def)
qed

section \<open>The statistics\<close>

lemma add_count_add: "add_count (add_count v j) k = add_count v (j + k)"
  by (simp add: add_count_def split: option.splits bucket_value.splits)

lemma add_count_None: "add_count None k = bucket k"
  by (simp add: add_count_def bucket_def)

lemma increment_other:
  assumes "k' \<noteq> k"
  shows "increment obj k' k = obj k"
proof (cases "obj k'")
  case None
  with assms show ?thesis
    by (simp add: increment_def)
next
  case (Some v)
  with assms show ?thesis
    by (cases v) (simp_all add: increment_def)
qed

lemma increment_plain:
  assumes "k \<notin> set object_prototype_names"
  shows "increment obj k k = add_count (obj k) 1"
proof (cases "obj k")
  case None
  with assms show ?thesis
    by (simp add: increment_def add_count_def)
next
  case (Some v)
  then show ?thesis
    by (cases v) (simp_all add: increment_def add_count_def)
qed

lemma increment_apply:
  "k \<notin> set object_prototype_names \<or> k' \<noteq> k \<Longrightarrow>
   increment obj k' k = add_count (obj k) (if k' = k then 1 else 0)"
  by (cases "k' = k") (auto simp: increment_plain increment_other add_count_def)

lemma foldl_count_topic_byTopic:
  "t \<notin> set object_prototype_names \<or> t \<notin> set ts \<Longrightarrow>
   byTopic (foldl count_topic st ts) t = add_count (byTopic st t) (count_list ts t)"
proof (induction ts arbitrary: st)
  case Nil
  show ?case by (simp add: add_count_def)
next
  case (Cons a ts)
  have "byTopic (count_topic st a) t = add_count (byTopic st t) (if a = t then 1 else 0)"
    using Cons.prems by (auto simp: count_topic_def increment_apply)
  moreover have "t \<notin> set object_prototype_names \<or> t \<notin> set ts"
    using Cons.prems by auto
  ultimately show ?case
    using Cons.IH [of "count_topic st a"] by (simp add: add_count_add)
qed

lemma foldl_count_topic_rest:
  "byUser (foldl count_topic st ts) = byUser st \<and>
   total_conns (foldl count_topic st ts) = total_conns st \<and>
   timestamp (foldl count_topic st ts) = timestamp st"
  by (induction ts arbitrary: st) (simp_all add: count_topic_def)

lemma count_connection_byUser:
  "u \<notin> set object_prototype_names \<or> userId c \<noteq> u \<Longrightarrow>
   byUser (count_connection st c) u = add_count (byUser st u) (if userId c = u then 1 else 0)"
  by (auto simp: count_connection_def foldl_count_topic_rest increment_apply)

lemma count_connection_byTopic:
  "t \<notin> set object_prototype_names \<or> t \<notin> set (subscriptions_or_empty c) \<Longrightarrow>
   byTopic (count_connection st c) t =
     add_count (byTopic st t) (count_list (subscriptions_or_empty c) t)"
  by (simp add: count_connection_def foldl_count_topic_byTopic)

lemma count_connection_rest:
  "total_conns (count_connection st c) = total_conns st \<and>
   timestamp (count_connection st c) = timestamp st"
  by (simp add: count_connection_def foldl_count_topic_rest)

lemma foldl_count_connection_byUser:
  "u \<notin> set object_prototype_names \<or> u \<notin> userId ` set cs \<Longrightarrow>
   byUser (foldl count_connection st cs) u = add_count (byUser st u) (owner_count cs u)"
proof (induction cs arbitrary: st)
  case Nil
  show ?case by (simp add: owner_count_def add_count_def)
next
  case (Cons c cs)
  have 1: "u \<notin> set object_prototype_names \<or> userId c \<noteq> u"
    and 2: "u \<notin> set object_prototype_names \<or> u \<notin> userId ` set cs"
    using Cons.prems by auto
  show ?case
    using Cons.IH [OF 2, of "count_connection st c"] count_connection_byUser [OF 1, of st]
    by (simp add: add_count_add owner_count_def)
qed

lemma foldl_count_connection_byTopic:
  "t \<notin> set object_prototype_names \<or> (\<forall>c \<in> set cs. t \<notin> set (subscriptions_or_empty c)) \<Longrightarrow>
   byTopic (foldl count_connection st cs) t =
     add_count (byTopic st t) (topic_occurrences cs t)"
proof (induction cs arbitrary: st)
  case Nil
  show ?case by (simp add: topic_occurrences_def add_count_def)
next
  case (Cons c cs)
  have 1: "t \<notin> set object_prototype_names \<or> t \<notin> set (subscriptions_or_empty c)"
    and 2: "t \<notin> set object_prototype_names \<or>
      (\<forall>c \<in> set cs. t \<notin> set (subscriptions_or_empty c))"
    using Cons.prems by auto
  show ?case
    using Cons.IH [OF 2, of "count_connection st c"] count_connection_byTopic [OF 1, of st]
    by (simp add: add_count_add topic_occurrences_def)
qed

lemma foldl_count_connection_rest:
  "total_conns (foldl count_connection st cs) = total_conns st \<and>
   timestamp (foldl count_connection st cs) = timestamp st"
  by (induction cs arbitrary: st) (simp_all add: count_connection_rest)

lemma getConnectionStats_counts:
  assumes "scan_ok env"
  shows "\<exists>s. getConnectionStats env w = Inr (Some s) \<and>
     total_conns s = length (live (table w)) \<and>
     timestamp s = clock env 0 \<and>
     (\<forall>u. u \<notin> set object_prototype_names \<or> u \<notin> userId ` set (live (table w)) \<longrightarrow>
        byUser s u = bucket (owner_count (live (table w)) u)) \<and>
     (\<forall>t. t \<notin> set object_prototype_names \<or>
          (\<forall>c \<in> set (live (table w)). t \<notin> set (subscriptions_or_empty c)) \<longrightarrow>
        byTopic s t = bucket (topic_occurrences (live (table w)) t))"
  using assms
  by (simp add: getConnectionStats_def getAllActiveConnections_def dynamodb_scan_def
      foldl_count_connection_rest foldl_count_connection_byUser foldl_count_connection_byTopic
      add_count_None live_def [symmetric])

lemma count_list_distinct: "distinct xs \<Longrightarrow> count_list xs t = (if t \<in> set xs then 1 else 0)"
  by (induction xs) auto

lemma topic_occurrences_distinct:
  "\<forall>c \<in> set cs. distinct (subscriptions_or_empty c) \<Longrightarrow>
   topic_occurrences cs t = topic_count cs t"
  by (induction cs) (simp_all add: topic_occurrences_def topic_count_def count_list_distinct)

lemma getConnectionStats_snapshot_plain:
  assumes ok: "scan_ok env"
    and plain: "\<forall>c \<in> set (live (table w)).
      userId c \<notin> set object_prototype_names \<and>
      set (subscriptions_or_empty c) \<inter> set object_prototype_names = {}"
    and sets: "\<forall>c \<in> set (live (table w)). distinct (subscriptions_or_empty c)"
  shows "getConnectionStats env w = Inr (Some (snapshot (live (table w)) (clock env 0)))"
proof -
  obtain s where s: "getConnectionStats env w = Inr (Some s)"
    and total: "total_conns s = length (live (table w))"
    and time: "timestamp s = clock env 0"
    and users: "\<And>u. u \<notin> set object_prototype_names \<or> u \<notin> userId ` set (live (table w)) \<Longrightarrow>
        byUser s u = bucket (owner_count (live (table w)) u)"
    and topics: "\<And>t. t \<notin> set object_prototype_names \<or>
          (\<forall>c \<in> set (live (table w)). t \<notin> set (subscriptions_or_empty c)) \<Longrightarrow>
        byTopic s t = bucket (topic_occurrences (live (table w)) t)"
    using getConnectionStats_counts [OF ok, of w] by blast
  have "byUser s = (\<lambda>u. bucket (owner_count (live (table w)) u))"
  proof (rule ext)
    fix u
    have "u \<notin> set object_prototype_names \<or> u \<notin> userId ` set (live (table w))"
      using plain by auto
    then show "byUser s u = bucket (owner_count (live (table w)) u)"
      by (rule users)
  qed
  moreover have "byTopic s = (\<lambda>t. bucket (topic_count (live (table w)) t))"
  proof (rule ext)
    fix t
    have "t \<notin> set object_prototype_names \<or>
        (\<forall>c \<in> set (live (table w)). t \<notin> set (subscriptions_or_empty c))"
      using plain by auto
    then have "byTopic s t = bucket (topic_occurrences (live (table w)) t)"
      by (rule topics)
    then show "byTopic s t = bucket (topic_count (live (table w)) t)"
      using sets by (simp add: topic_occurrences_distinct)
  qed
  ultimately have "s = snapshot (live (table w)) (clock env 0)"
    using total time by (simp add: snapshot_def)
  with s show ?thesis
    by simp
qed

lemma live_insert: "status c = ''connected'' \<Longrightarrow> live (xs @ c # ys) = live xs @ c # live ys"
  by (simp add: live_def)

lemma live_append: "live (xs @ ys) = live xs @ live ys"
  by (simp add: live_def)

lemma getSubscriberConnections_absent:
  "subscriptions c = None \<Longrightarrow> getSubscriberConnections env topics w = Inr cs \<Longrightarrow> c \<notin> set cs"
  by (auto simp: getSubscriberConnections_def getAllActiveConnections_def dynamodb_scan_def
      subscriptions_or_empty_def split: if_splits)

lemma absent_subscriptions_counted:
  assumes ok: "scan_ok env" and st: "status c = ''connected''"
    and ab: "subscriptions c = None"
    and plain: "userId c \<notin> set object_prototype_names"
  shows "\<exists>s s'. getConnectionStats env (w\<lparr>table := xs @ c # ys\<rparr>) = Inr (Some s) \<and>
     getConnectionStats env (w\<lparr>table := xs @ ys\<rparr>) = Inr (Some s') \<and>
     total_conns s = Suc (total_conns s') \<and>
     byUser s (userId c) = Some (Count (Suc (owner_count (live (xs @ ys)) (userId c)))) \<and>
     (\<forall>u. u \<notin> set object_prototype_names \<and> u \<noteq> userId c \<longrightarrow> byUser s u = byUser s' u) \<and>
     (\<forall>t. t \<notin> set object_prototype_names \<longrightarrow> byTopic s t = byTopic s' t)"
proof -
  let ?a = "live xs" and ?b = "live ys"
  have li: "live (table (w\<lparr>table := xs @ c # ys\<rparr>)) = ?a @ c # ?b"
    using st by (simp add: live_insert)
  have li': "live (table (w\<lparr>table := xs @ ys\<rparr>)) = ?a @ ?b"
    by (simp add: live_append)
  obtain s where s: "getConnectionStats env (w\<lparr>table := xs @ c # ys\<rparr>) = Inr (Some s)"
    and total: "total_conns s = length (?a @ c # ?b)"
    and users: "\<And>u. u \<notin> set object_prototype_names \<Longrightarrow>
        byUser s u = bucket (owner_count (?a @ c # ?b) u)"
    and topics: "\<And>t. t \<notin> set object_prototype_names \<Longrightarrow>
        byTopic s t = bucket (topic_occurrences (?a @ c # ?b) t)"
    using getConnectionStats_counts [OF ok, of "w\<lparr>table := xs @ c # ys\<rparr>"] unfolding li
    by blast
  obtain s' where s': "getConnectionStats env (w\<lparr>table := xs @ ys\<rparr>) = Inr (Some s')"
    and total': "total_conns s' = length (?a @ ?b)"
    and users': "\<And>u. u \<notin> set object_prototype_names \<Longrightarrow>
        byUser s' u = bucket (owner_count (?a @ ?b) u)"
    and topics': "\<And>t. t \<notin> set object_prototype_names \<Longrightarrow>
        byTopic s' t = bucket (topic_occurrences (?a @ ?b) t)"
    using getConnectionStats_counts [OF ok, of "w\<lparr>table := xs @ ys\<rparr>"] unfolding li'
    by blast
  have u: "owner_count (?a @ c # ?b) u =
      (if u = userId c then Suc (owner_count (?a @ ?b) u) else owner_count (?a @ ?b) u)" for u
    by (auto simp: owner_count_def)
  have t: "topic_occurrences (?a @ c # ?b) t = topic_occurrences (?a @ ?b) t" for t
    using ab by (simp add: topic_occurrences_def subscriptions_or_empty_def)
  have "total_conns s = Suc (total_conns s')"
    using total total' by simp
  moreover have "byUser s (userId c) = Some (Count (Suc (owner_count (live (xs @ ys)) (userId c))))"
    using users [OF plain] by (simp add: u bucket_def live_append)
  moreover have "\<forall>u. u \<notin> set object_prototype_names \<and> u \<noteq> userId c \<longrightarrow> byUser s u = byUser s' u"
    using users users' by (simp add: u)
  moreover have "\<forall>t. t \<notin> set object_prototype_names \<longrightarrow> byTopic s t = byTopic s' t"
    using topics topics' by (simp add: t)
  ultimately show ?thesis
    using s s' by blast
qed

text \<open>
  The registry of the specification's example, whose owner ids and topics are not
  names of \<open>Object.prototype\<close>: the snapshot is the count.
\<close>

lemma getConnectionStats_example:
  "getConnectionStats (example_env all_delivered) (example_world three_connections) =
     Inr (Some \<lparr>total_conns = 3,
                byUser = [''u1'' \<mapsto> Count 2, ''u2'' \<mapsto> Count 1],
                byTopic = [''partners'' \<mapsto> Count 2, ''c1'' \<mapsto> Count 2],
                timestamp = 1700000000000\<rparr>)"
  by (auto simp: getConnectionStats_def getAllActiveConnections_def dynamodb_scan_def
      count_connection_def count_topic_def increment_def object_prototype_names_def fun_eq_iff
      subscriptions_or_empty_def example_env_def example_world_def example_connection_def
      three_connections_def)

text \<open>
  C6 fails on the code. For a registry of one connected row, of the owner
  \<open>constructor\<close>, subscribed to \<open>__proto__\<close> and \<open>partners\<close>, the claim's snapshot has
  the owner's bucket at 1 and both topic buckets at 1. The code reads the inherited
  \<open>Object.prototype.constructor\<close> where it expects a count: the owner's bucket is the
  string of that function's text followed by \<open>1\<close>, and there is no bucket for
  \<open>__proto__\<close>. (When no owner id and no topic of a live row is a name of
  \<open>Object.prototype\<close>, the snapshot is the claim's: \<open>getConnectionStats_snapshot_plain\<close>.)
\<close>

theorem getConnectionStats_inherited_names:
  "getConnectionStats (example_env all_delivered) (example_world inherited_names_connections) =
     Inr (Some \<lparr>total_conns = 1,
                byUser = [''constructor'' \<mapsto> Text ''constructor'' 1],
                byTopic = [''partners'' \<mapsto> Count 1],
                timestamp = 1700000000000\<rparr>) \<and>
   snapshot (live (table (example_world inherited_names_connections))) 1700000000000 =
     \<lparr>total_conns = 1,
      byUser = [''constructor'' \<mapsto> Count 1],
      byTopic = [''__proto__'' \<mapsto> Count 1, ''partners'' \<mapsto> Count 1],
      timestamp = 1700000000000\<rparr>"
proof
  show "getConnectionStats (example_env all_delivered)
      (example_world inherited_names_connections) =
     Inr (Some \<lparr>total_conns = 1,
                byUser = [''constructor'' \<mapsto> Text ''constructor'' 1],
                byTopic = [''partners'' \<mapsto> Count 1],
                timestamp = 1700000000000\<rparr>)"
    by (simp add: getConnectionStats_def getAllActiveConnections_def dynamodb_scan_def
        count_connection_def count_topic_def increment_def object_prototype_names_def
        subscriptions_or_empty_def example_env_def example_world_def example_connection_def
        inherited_names_connections_def)
next
  show "snapshot (live (table (example_world inherited_names_connections))) 1700000000000 =
     \<lparr>total_conns = 1,
      byUser = [''constructor'' \<mapsto> Count 1],
      byTopic = [''__proto__'' \<mapsto> Count 1, ''partners'' \<mapsto> Count 1],
      timestamp = 1700000000000\<rparr>"
    by (auto simp: snapshot_def live_def bucket_def owner_count_def topic_count_def fun_eq_iff
        subscriptions_or_empty_def example_world_def example_connection_def
        inherited_names_connections_def)
qed


text \<open>
  C10. When the scan of the table is rejected, \<open>getConnectionStats\<close> returns
  \<open>null\<close>; it never raises: its result is \<open>null\<close> or a snapshot of the live rows.
\<close>

theorem getConnectionStats_null:
  "(\<not> scan_ok env \<longrightarrow> getConnectionStats env w = Inr None) \<and>
   (getConnectionStats env w = Inr None \<or>
    (\<exists>s. getConnectionStats env w = Inr (Some s) \<and>
         total_conns s = length (live (table w)) \<and> timestamp s = clock env 0))"
  by (simp add: getConnectionStats_def getAllActiveConnections_def dynamodb_scan_def
      foldl_count_connection_rest live_def)

theorem getConnectionStats_null_witness:
  "\<not> scan_ok ((example_env all_delivered)\<lparr>scan_ok := False\<rparr>) \<and>
   getConnectionStats ((example_env all_delivered)\<lparr>scan_ok := False\<rparr>)
     (example_world three_connections) = Inr None"
  using getConnectionStats_null
    [of "(example_env all_delivered)\<lparr>scan_ok := False\<rparr>" "example_world three_connections"]
  by (simp add: example_env_def)

section \<open>Admission\<close>

lemma handler_admitted:
  "valid_token env ev = Some uid \<Longrightarrow> put_ok env \<Longrightarrow>
   handler env ev w =
     (\<lparr>statusCode = 200, message = ''Connected'', error_of = None\<rparr>,
      \<lparr>table = filter (\<lambda>r. connectionId r \<noteq> event_connectionId ev) (table w) @
                [connectionData env ev uid],
       pushes = pushes w @ [welcome_push env ev uid]\<rparr>)"
  by (auto simp: handler_def valid_token_def verifyToken_def dynamodb_put_def
      connectionData_def Let_def split: option.splits if_splits push_outcome.splits)

lemma handler_put_rejected:
  "valid_token env ev = Some uid \<Longrightarrow> \<not> put_ok env \<Longrightarrow>
   handler env ev w =
     (\<lparr>statusCode = 500, message = ''Erreur interne'', error_of = Some RegistryError\<rparr>, w)"
  by (auto simp: handler_def valid_token_def verifyToken_def dynamodb_put_def Let_def
      split: option.splits if_splits)

lemma handler_unauthorized:
  "valid_token env ev = None \<Longrightarrow>
   statusCode (fst (handler env ev w)) = 401 \<and> snd (handler env ev w) = w"
  by (auto simp: handler_def valid_token_def verifyToken_def Let_def
      split: option.splits if_splits)

lemma filter_key_after_put:
  "connectionId item = k \<Longrightarrow>
   filter (\<lambda>r. connectionId r = k) (filter (\<lambda>r. connectionId r \<noteq> k) rows @ [item]) = [item]"
  by (induction rows) auto

text \<open>
  C2, as the code has it. For an admission event with a valid token, when the table
  serves the write, the handler puts one row, the only row of the event's
  \<open>connectionId\<close> afterwards, with the status \<open>connected\<close> and a \<open>ttl\<close> of 24 hours
  after the second of the admission, and returns 200; when the table rejects the
  write, the handler returns 500 and writes nothing. For a missing, malformed or
  expired token it returns 401 and changes nothing.
\<close>

theorem handler_admission:
  "(valid_token env ev = Some uid \<and> put_ok env \<longrightarrow>
      statusCode (fst (handler env ev w)) = 200 \<and>
      table (snd (handler env ev w)) =
        filter (\<lambda>r. connectionId r \<noteq> event_connectionId ev) (table w) @
        [connectionData env ev uid] \<and>
      filter (\<lambda>r. connectionId r = event_connectionId ev) (table (snd (handler env ev w))) =
        [connectionData env ev uid] \<and>
      status (connectionData env ev uid) = ''connected'' \<and>
      ttl (connectionData env ev uid) = clock env 1 div 1000 + 86400) \<and>
   (valid_token env ev = Some uid \<and> \<not> put_ok env \<longrightarrow>
      statusCode (fst (handler env ev w)) = 500 \<and> snd (handler env ev w) = w) \<and>
   (valid_token env ev = None \<longrightarrow>
      statusCode (fst (handler env ev w)) = 401 \<and> snd (handler env ev w) = w)"
  by (simp add: handler_admitted handler_put_rejected handler_unauthorized
      filter_key_after_put)
     (simp add: connectionData_def)

theorem handler_admission_witness:
  "valid_token (example_env all_delivered) (example_event (Some ''Bearer good'')) =
     Some ''u1'' \<and>
   put_ok (example_env all_delivered) \<and>
   statusCode (fst (handler (example_env all_delivered)
     (example_event (Some ''Bearer good'')) (example_world []))) = 200 \<and>
   map connectionId (table (snd (handler (example_env all_delivered)
     (example_event (Some ''Bearer good'')) (example_world [])))) = [''c9''] \<and>
   ttl (connectionData (example_env all_delivered) (example_event (Some ''Bearer good''))
          ''u1'') = 1700086400 \<and>
   valid_token ((example_env all_delivered)\<lparr>put_ok := False\<rparr>)
     (example_event (Some ''Bearer good'')) = Some ''u1'' \<and>
   \<not> put_ok ((example_env all_delivered)\<lparr>put_ok := False\<rparr>) \<and>
   statusCode (fst (handler ((example_env all_delivered)\<lparr>put_ok := False\<rparr>)
     (example_event (Some ''Bearer good'')) (example_world []))) = 500 \<and>
   valid_token (example_env all_delivered) (example_event (Some ''Bearer expired'')) = None \<and>
   statusCode (fst (handler (example_env all_delivered)
     (example_event (Some ''Bearer expired'')) (example_world []))) = 401 \<and>
   snd (handler (example_env all_delivered)
     (example_event (Some ''Bearer expired'')) (example_world [])) = example_world [] \<and>
   valid_token (example_env all_delivered) (example_event None) = None \<and>
   statusCode (fst (handler (example_env all_delivered)
     (example_event None) (example_world []))) = 401"
proof -
  have v1: "valid_token (example_env all_delivered) (example_event (Some ''Bearer good'')) =
      Some ''u1''"
    by (simp add: valid_token_def example_env_def example_event_def)
  have v2: "valid_token ((example_env all_delivered)\<lparr>put_ok := False\<rparr>)
      (example_event (Some ''Bearer good'')) = Some ''u1''"
    by (simp add: valid_token_def example_env_def example_event_def)
  have v3: "valid_token (example_env all_delivered) (example_event (Some ''Bearer expired'')) =
      None"
    by (simp add: valid_token_def example_env_def example_event_def)
  have v4: "valid_token (example_env all_delivered) (example_event None) = None"
    by (simp add: valid_token_def example_env_def example_event_def)
  have p1: "put_ok (example_env all_delivered)"
    and p2: "\<not> put_ok ((example_env all_delivered)\<lparr>put_ok := False\<rparr>)"
    by (simp_all add: example_env_def)
  show ?thesis
    using v1 v2 v3 v4 p1 p2
      handler_admission
        [of "example_env all_delivered" "example_event (Some ''Bearer good'')" "''u1''"
            "example_world []"]
      handler_admission
        [of "(example_env all_delivered)\<lparr>put_ok := False\<rparr>"
            "example_event (Some ''Bearer good'')" "''u1''" "example_world []"]
      handler_admission
        [of "example_env all_delivered" "example_event (Some ''Bearer expired'')" "''u1''"
            "example_world []"]
      handler_admission
        [of "example_env all_delivered" "example_event None" "''u1''" "example_world []"]
    by (simp add: connectionData_def example_env_def example_event_def example_world_def)
qed

text \<open>
  C2, as the claim states it, fails: the token is valid, the table rejects the write,
  and the handler returns 500 with no row written.
\<close>

theorem handler_valid_token_counterexample:
  "valid_token ((example_env all_delivered)\<lparr>put_ok := False\<rparr>)
     (example_event (Some ''Bearer good'')) = Some ''u1'' \<and>
   statusCode (fst (handler ((example_env all_delivered)\<lparr>put_ok := False\<rparr>)
     (example_event (Some ''Bearer good'')) (example_world []))) = 500 \<and>
   table (snd (handler ((example_env all_delivered)\<lparr>put_ok := False\<rparr>)
     (example_event (Some ''Bearer good'')) (example_world []))) = []"
  by (simp add: handler_def valid_token_def verifyToken_def dynamodb_put_def example_env_def
      example_event_def example_world_def)

text \<open>
  C8. For an admission event with a valid token, when the write to the table is served
  and the welcome push fails, whatever its error, the handler returns 200 and the
  table is the one the write left: the new row is in it.
\<close>

theorem handler_welcome_failure:
  "valid_token env ev = Some uid \<Longrightarrow> put_ok env \<Longrightarrow>
   postToConnection env (welcome_push env ev uid) = PushError sc \<Longrightarrow>
   statusCode (fst (handler env ev w)) = 200 \<and>
   (\<exists>w1. dynamodb_put env (connectionData env ev uid) w = Inr w1 \<and>
      table (snd (handler env ev w)) = table w1 \<and>
      connectionData env ev uid \<in> set (table (snd (handler env ev w))))"
  by (simp add: handler_admitted dynamodb_put_def connectionData_def)

theorem handler_welcome_failure_witness:
  "valid_token (example_env (fails_for ''c9'' (Some 410)))
     (example_event (Some ''Bearer good'')) = Some ''u1'' \<and>
   put_ok (example_env (fails_for ''c9'' (Some 410))) \<and>
   postToConnection (example_env (fails_for ''c9'' (Some 410)))
     (welcome_push (example_env (fails_for ''c9'' (Some 410)))
        (example_event (Some ''Bearer good'')) ''u1'') = PushError (Some 410) \<and>
   statusCode (fst (handler (example_env (fails_for ''c9'' (Some 410)))
     (example_event (Some ''Bearer good'')) (example_world three_connections))) = 200 \<and>
   map connectionId (table (snd (handler (example_env (fails_for ''c9'' (Some 410)))
     (example_event (Some ''Bearer good'')) (example_world three_connections)))) =
     [''c1'', ''c2'', ''c3'', ''c9'']"
proof -
  have v: "valid_token (example_env (fails_for ''c9'' (Some 410)))
      (example_event (Some ''Bearer good'')) = Some ''u1''"
    by (simp add: valid_token_def example_env_def example_event_def)
  have p: "put_ok (example_env (fails_for ''c9'' (Some 410)))"
    by (simp add: example_env_def)
  have f: "postToConnection (example_env (fails_for ''c9'' (Some 410)))
     (welcome_push (example_env (fails_for ''c9'' (Some 410)))
        (example_event (Some ''Bearer good'')) ''u1'') = PushError (Some 410)"
    by (simp add: example_env_def fails_for_def welcome_push_def example_event_def)
  show ?thesis
    using v p f
      handler_welcome_failure
        [OF v p f, of "example_world three_connections"]
    by (auto simp: dynamodb_put_def connectionData_def example_env_def example_event_def
        example_world_def example_connection_def three_connections_def)
qed

end
